theory Spec2Isabelle
  imports Complex_Main "HOL-Library.Sublist" "HOL-Library.Multiset"
begin

section \<open>The search engine of \<^verbatim>\<open>ai_search_engine.py\<close> (class \<^verbatim>\<open>AISearchEngine\<close>)\<close>

text \<open>
  Python strings are modelled as \<^typ>\<open>string\<close>; a \<^typ>\<open>char\<close> stands for the code
  point of the same number, so the strings of the model are the Python strings over
  the code points 0 to 255. The character classes below are the ones of Python 3 on
  that range: \<^verbatim>\<open>str.isspace\<close>, \<^verbatim>\<open>str.split\<close>, \<^verbatim>\<open>str.strip\<close> and the regular expression
  class \<^verbatim>\<open>\s\<close> agree on the twelve characters 9..13, 28..32, 133 and 160; \<^verbatim>\<open>\w\<close> is
  the underscore or an alphanumeric character, which beyond ASCII are 170, 178, 179,
  181, 185, 186, 188..190 and the letters 192..255 without 215 and 247; and
  \<^verbatim>\<open>str.lower\<close> adds 32 to the capital letters 65..90, 192..214 and 216..222.
\<close>

subsection \<open>Characters and the string methods the engine calls\<close>

definition code :: "char \<Rightarrow> nat" where
  "code c = of_char c"

definition is_space :: "char \<Rightarrow> bool" where
  "is_space c = (code c \<in> {9, 10, 11, 12, 13, 28, 29, 30, 31, 32, 133, 160})"

definition is_upper :: "char \<Rightarrow> bool" where
  "is_upper c = ((65 \<le> code c \<and> code c \<le> 90)
                 \<or> (192 \<le> code c \<and> code c \<le> 222 \<and> code c \<noteq> 215))"

definition is_word :: "char \<Rightarrow> bool" where
  "is_word c = ((97 \<le> code c \<and> code c \<le> 122) \<or> (65 \<le> code c \<and> code c \<le> 90)
                \<or> (48 \<le> code c \<and> code c \<le> 57) \<or> code c = 95
                \<or> code c \<in> {170, 178, 179, 181, 185, 186, 188, 189, 190}
                \<or> (192 \<le> code c \<and> code c \<noteq> 215 \<and> code c \<noteq> 247))"

definition lower_char :: "char \<Rightarrow> char" where
  "lower_char c = (if is_upper c then char_of (code c + 32) else c)"

text \<open>\<^verbatim>\<open>s.lower()\<close>\<close>

definition lower :: "string \<Rightarrow> string" where
  "lower s = map lower_char s"

text \<open>\<^verbatim>\<open>s.strip()\<close>\<close>

definition strip :: "string \<Rightarrow> string" where
  "strip s = rev (dropWhile is_space (rev (dropWhile is_space s)))"

text \<open>\<^verbatim>\<open>s.split()\<close>: the maximal runs of characters that are not whitespace.\<close>

function split_ws :: "string \<Rightarrow> string list" where
  "split_ws s =
     (let t = dropWhile is_space s
      in if t = [] then []
         else takeWhile (\<lambda>c. \<not> is_space c) t # split_ws (dropWhile (\<lambda>c. \<not> is_space c) t))"
  by pat_completeness auto
termination
proof (relation "measure length")
  show "wf (measure length)" by simp
next
  fix s t :: string
  assume t: "t = dropWhile is_space s" and ne: "t \<noteq> []"
  have "\<not> is_space (hd t)"
    using t ne hd_dropWhile by metis
  then have "dropWhile (\<lambda>c. \<not> is_space c) t = dropWhile (\<lambda>c. \<not> is_space c) (tl t)"
    using ne by (cases t) simp_all
  moreover have "length (dropWhile (\<lambda>c. \<not> is_space c) (tl t)) \<le> length (tl t)"
    by (rule length_dropWhile_le)
  ultimately have "length (dropWhile (\<lambda>c. \<not> is_space c) t) \<le> length (tl t)"
    by simp
  also have "\<dots> < length t" using ne by (cases t) simp_all
  also have "\<dots> \<le> length s" using t by (simp add: length_dropWhile_le)
  finally show "(dropWhile (\<lambda>c. \<not> is_space c) t, s) \<in> measure length" by simp
qed

declare split_ws.simps [simp del]

text \<open>\<^verbatim>\<open>x in s\<close> for two strings: \<open>x\<close> is a contiguous part of \<open>s\<close>.\<close>

definition str_in :: "string \<Rightarrow> string \<Rightarrow> bool" where
  "str_in x s = sublist x s"

text \<open>
  \<^verbatim>\<open>s.replace(old, new)\<close>: every occurrence of \<open>old\<close>, found from the left and not
  overlapping, becomes \<open>new\<close>; with an empty \<open>old\<close>, \<open>new\<close> is put before every
  character and at the end.
\<close>

function replace_from :: "string \<Rightarrow> string \<Rightarrow> string \<Rightarrow> string" where
  "replace_from old new s =
     (if old = [] \<or> s = [] then s
      else if prefix old s then new @ replace_from old new (drop (length old) s)
      else hd s # replace_from old new (tl s))"
  by pat_completeness auto
termination
  by (relation "measure (\<lambda>(old, new, s). length s)") (auto simp: neq_Nil_conv)

declare replace_from.simps [simp del]

definition replace :: "string \<Rightarrow> string \<Rightarrow> string \<Rightarrow> string" where
  "replace s old new =
     (if old = [] then new @ concat (map (\<lambda>c. c # new) s) else replace_from old new s)"

subsection \<open>Text Normalizer: \<^verbatim>\<open>_preprocess_query\<close>\<close>

text \<open>\<^verbatim>\<open>re.sub(r'\s+', ' ', query)\<close>: each maximal run of whitespace becomes one space.\<close>

function collapse_ws :: "string \<Rightarrow> string" where
  "collapse_ws [] = []"
| "collapse_ws (c # cs) =
     (if is_space c then CHR '' '' # collapse_ws (dropWhile is_space cs)
      else c # collapse_ws cs)"
  by pat_completeness auto
termination
  by (relation "measure length") (auto simp: length_dropWhile_le less_Suc_eq_le)

text \<open>\<^verbatim>\<open>re.sub(r'[^\w\s\-\?]', '', query)\<close>: the characters of the class are kept.\<close>

definition keep_char :: "char \<Rightarrow> bool" where
  "keep_char c = (is_word c \<or> is_space c \<or> c = CHR ''-'' \<or> c = CHR ''?'')"

definition remove_special :: "string \<Rightarrow> string" where
  "remove_special s = filter keep_char s"

definition preprocess_query :: "string \<Rightarrow> string" where
  "preprocess_query query = remove_special (collapse_ws (strip (lower query)))"

subsection \<open>The similarity ratio of \<^verbatim>\<open>difflib.SequenceMatcher(None, a, b)\<close>\<close>

text \<open>
  The engine calls the standard library's \<^verbatim>\<open>SequenceMatcher\<close> with no junk predicate
  and with \<^verbatim>\<open>autojunk\<close> left on. The definitions follow \<^verbatim>\<open>difflib.py\<close>: \<open>b2j\<close> maps a
  character to its positions in \<open>b\<close> (none for a character that is "popular" in a \<open>b\<close>
  of 200 characters or more), \<^verbatim>\<open>find_longest_match\<close> runs the two nested loops over
  \<open>a[alo:ahi]\<close> and the positions of \<open>a[i]\<close>, keeping in \<open>j2len\<close> the length of the match
  that ends at \<open>a[i-1]\<close>, \<open>b[j]\<close>, and then extends the best match to the left and to the
  right; as no character is junk, the two loops over junk characters never run and
  are left out. \<^verbatim>\<open>ratio()\<close> is twice the total size of the matching blocks over the sum
  of the two lengths. The indices are natural numbers: \<open>Suc i - k\<close> is the source's
  \<open>i-k+1\<close>, where \<open>k\<close> is at most \<open>i+1\<close>.
\<close>

definition popular :: "string \<Rightarrow> char \<Rightarrow> bool" where
  "popular b c = (200 \<le> length b \<and> length b div 100 + 1 < count_list b c)"

definition b2j :: "string \<Rightarrow> char \<Rightarrow> nat list" where
  "b2j b c = (if popular b c then [] else filter (\<lambda>j. b ! j = c) [0..<length b])"

definition j2lenget :: "(nat \<rightharpoonup> nat) \<Rightarrow> nat \<Rightarrow> nat" where
  "j2lenget j2len j = (if j = 0 then 0 else case j2len (j - 1) of None \<Rightarrow> 0 | Some v \<Rightarrow> v)"

type_synonym match = "nat \<times> nat \<times> nat"

fun scan_js :: "nat \<Rightarrow> nat \<Rightarrow> nat \<Rightarrow> (nat \<rightharpoonup> nat) \<Rightarrow> nat list \<Rightarrow> match \<times> (nat \<rightharpoonup> nat)
    \<Rightarrow> match \<times> (nat \<rightharpoonup> nat)" where
  "scan_js i blo bhi j2len [] st = st"
| "scan_js i blo bhi j2len (j # js) ((besti, bestj, bestsize), newj2len) =
     (if j < blo then scan_js i blo bhi j2len js ((besti, bestj, bestsize), newj2len)
      else if bhi \<le> j then ((besti, bestj, bestsize), newj2len)
      else let k = j2lenget j2len j + 1
           in scan_js i blo bhi j2len js
                (if bestsize < k then (Suc i - k, Suc j - k, k) else (besti, bestj, bestsize),
                 newj2len(j \<mapsto> k)))"

fun scan_is :: "string \<Rightarrow> string \<Rightarrow> nat \<Rightarrow> nat \<Rightarrow> nat list \<Rightarrow> match \<times> (nat \<rightharpoonup> nat) \<Rightarrow> match" where
  "scan_is a b blo bhi [] (best, j2len) = best"
| "scan_is a b blo bhi (i # is) (best, j2len) =
     scan_is a b blo bhi is (scan_js i blo bhi j2len (b2j b (a ! i)) (best, Map.empty))"

function extend_left :: "string \<Rightarrow> string \<Rightarrow> nat \<Rightarrow> nat \<Rightarrow> match \<Rightarrow> match" where
  "extend_left a b alo blo (besti, bestj, bestsize) =
     (if alo < besti \<and> blo < bestj \<and> a ! (besti - 1) = b ! (bestj - 1)
      then extend_left a b alo blo (besti - 1, bestj - 1, bestsize + 1)
      else (besti, bestj, bestsize))"
  by pat_completeness auto
termination
  by (relation "measure (\<lambda>(a, b, alo, blo, besti, bestj, bestsize). besti)") auto

function extend_right :: "string \<Rightarrow> string \<Rightarrow> nat \<Rightarrow> nat \<Rightarrow> match \<Rightarrow> match" where
  "extend_right a b ahi bhi (besti, bestj, bestsize) =
     (if besti + bestsize < ahi \<and> bestj + bestsize < bhi
         \<and> a ! (besti + bestsize) = b ! (bestj + bestsize)
      then extend_right a b ahi bhi (besti, bestj, bestsize + 1)
      else (besti, bestj, bestsize))"
  by pat_completeness auto
termination
  by (relation "measure (\<lambda>(a, b, ahi, bhi, besti, bestj, bestsize). ahi - (besti + bestsize))") auto

declare extend_left.simps [simp del] extend_right.simps [simp del]

definition find_longest_match :: "string \<Rightarrow> string \<Rightarrow> nat \<Rightarrow> nat \<Rightarrow> nat \<Rightarrow> nat \<Rightarrow> match" where
  "find_longest_match a b alo ahi blo bhi =
     extend_right a b ahi bhi
       (extend_left a b alo blo
          (scan_is a b blo bhi [alo..<ahi] ((alo, blo, 0), Map.empty)))"

text \<open>The best match lies inside \<open>a[alo:ahi]\<close>, which makes the recursion over the blocks terminate.\<close>

definition in_range :: "nat \<Rightarrow> nat \<Rightarrow> match \<Rightarrow> bool" where
  "in_range alo n m = (case m of (i, j, k) \<Rightarrow> alo \<le> i \<and> i + k \<le> n)"

definition lens_below :: "nat \<Rightarrow> (nat \<rightharpoonup> nat) \<Rightarrow> bool" where
  "lens_below n m = (\<forall>j v. m j = Some v \<longrightarrow> v \<le> n)"

lemma j2lenget_below: "lens_below n m \<Longrightarrow> j2lenget m j \<le> n"
  by (auto simp: lens_below_def j2lenget_def split: option.splits)

lemma scan_js_inv:
  assumes "lens_below (i - alo) j2len" "alo \<le> i"
    and "in_range alo (Suc i) best" "lens_below (Suc i - alo) new"
    and "scan_js i blo bhi j2len js (best, new) = (best', new')"
  shows "in_range alo (Suc i) best' \<and> lens_below (Suc i - alo) new'"
  using assms
proof (induction js arbitrary: best new)
  case Nil
  then show ?case by simp
next
  case (Cons j js)
  obtain bi bj bs where best: "best = (bi, bj, bs)" by (cases best)
  show ?case
  proof (cases "j < blo")
    case True
    with Cons best show ?thesis by simp
  next
    case False
    show ?thesis
    proof (cases "bhi \<le> j")
      case True
      with False Cons.prems best show ?thesis by simp
    next
      case inside: False
      define k where "k = j2lenget j2len j + 1"
      have kle: "k \<le> Suc i - alo"
        using j2lenget_below [OF Cons.prems(1), of j] Cons.prems(2) by (simp add: k_def)
      let ?best = "if bs < k then (Suc i - k, Suc j - k, k) else (bi, bj, bs)"
      have step: "scan_js i blo bhi j2len js (?best, new(j \<mapsto> k)) = (best', new')"
        using Cons.prems(5) False inside best by (auto simp: k_def Let_def split: if_splits)
      have b: "in_range alo (Suc i) ?best"
        using Cons.prems(3) kle Cons.prems(2) best by (auto simp: in_range_def)
      have n: "lens_below (Suc i - alo) (new(j \<mapsto> k))"
        using Cons.prems(4) kle by (auto simp: lens_below_def)
      show ?thesis
        by (rule Cons.IH [OF Cons.prems(1) Cons.prems(2) b n step])
    qed
  qed
qed

lemma scan_is_inv:
  assumes "alo \<le> m" "in_range alo m best" "lens_below (m - alo) j2len"
  shows "in_range alo (max m ahi) (scan_is a b blo bhi [m..<ahi] (best, j2len))"
  using assms
proof (induction "ahi - m" arbitrary: m best j2len)
  case 0
  then show ?case by (simp add: max_def)
next
  case (Suc n)
  then have lt: "m < ahi" by simp
  obtain best' new' where st: "scan_js m blo bhi j2len (b2j b (a ! m)) (best, Map.empty) = (best', new')"
    by (cases "scan_js m blo bhi j2len (b2j b (a ! m)) (best, Map.empty)")
  have b0: "in_range alo (Suc m) best"
    using Suc.prems(2) by (auto simp: in_range_def)
  have inv: "in_range alo (Suc m) best' \<and> lens_below (Suc m - alo) new'"
    by (rule scan_js_inv [OF Suc.prems(3) Suc.prems(1) b0 _ st]) (simp add: lens_below_def)
  have "in_range alo (max (Suc m) ahi) (scan_is a b blo bhi [Suc m..<ahi] (best', new'))"
    using Suc.hyps(1) [of "Suc m" best' new'] Suc.hyps(2) Suc.prems(1) inv by simp
  then show ?case
    using lt st by (simp add: upt_conv_Cons max_def)
qed

lemma extend_left_inv:
  "in_range alo n m \<Longrightarrow> in_range alo n (extend_left a b alo blo m)"
proof (induction a b alo blo m rule: extend_left.induct)
  case (1 a b alo blo besti bestj bestsize)
  show ?case
  proof (cases "alo < besti \<and> blo < bestj \<and> a ! (besti - 1) = b ! (bestj - 1)")
    case True
    have "in_range alo n (besti - 1, bestj - 1, bestsize + 1)"
      using "1.prems" True by (auto simp: in_range_def)
    then show ?thesis
      using "1.IH" True by (subst extend_left.simps) simp
  next
    case False
    then show ?thesis
      using "1.prems" by (subst extend_left.simps) auto
  qed
qed

lemma extend_right_inv:
  "in_range alo (max alo ahi) m \<Longrightarrow> in_range alo (max alo ahi) (extend_right a b ahi bhi m)"
proof (induction a b ahi bhi m rule: extend_right.induct)
  case (1 a b ahi bhi besti bestj bestsize)
  show ?case
  proof (cases "besti + bestsize < ahi \<and> bestj + bestsize < bhi
         \<and> a ! (besti + bestsize) = b ! (bestj + bestsize)")
    case True
    have "in_range alo (max alo ahi) (besti, bestj, bestsize + 1)"
      using "1.prems" True by (auto simp: in_range_def max_def)
    then show ?thesis
      using "1.IH" True by (subst extend_right.simps) simp
  next
    case False
    then show ?thesis
      using "1.prems" by (subst extend_right.simps) auto
  qed
qed

lemma find_longest_match_range:
  "in_range alo (max alo ahi) (find_longest_match a b alo ahi blo bhi)"
  unfolding find_longest_match_def
  by (intro extend_right_inv extend_left_inv scan_is_inv) (simp_all add: in_range_def lens_below_def)

lemma find_longest_match_bounds:
  assumes "find_longest_match a b alo ahi blo bhi = (i, j, k)" "k \<noteq> 0"
  shows "alo \<le> i \<and> i + k \<le> ahi"
  using find_longest_match_range [of alo ahi a b blo bhi] assms
  by (auto simp: in_range_def max_def split: if_splits)

text \<open>
  The sum of the sizes of the blocks of \<^verbatim>\<open>get_matching_blocks\<close>: the longest match of the
  window, then the windows to its left and to its right.
\<close>

function matching_size :: "string \<Rightarrow> string \<Rightarrow> nat \<Rightarrow> nat \<Rightarrow> nat \<Rightarrow> nat \<Rightarrow> nat" where
  "matching_size a b alo ahi blo bhi =
     (case find_longest_match a b alo ahi blo bhi of
        (i, j, k) \<Rightarrow>
          if k = 0 then 0
          else k + (if alo < i \<and> blo < j then matching_size a b alo i blo j else 0)
                 + (if i + k < ahi \<and> j + k < bhi then matching_size a b (i + k) ahi (j + k) bhi
                    else 0))"
  by pat_completeness auto
termination
  by (relation "measure (\<lambda>(a, b, alo, ahi, blo, bhi). ahi - alo)")
     (auto dest: find_longest_match_bounds [OF sym])

declare matching_size.simps [simp del]

definition ratio :: "string \<Rightarrow> string \<Rightarrow> real" where
  "ratio a b =
     (let matches = matching_size a b 0 (length a) 0 (length b);
          total = length a + length b
      in if total \<noteq> 0 then 2 * real matches / real total else 1)"

subsection \<open>Intent Classifier: \<^verbatim>\<open>_load_query_patterns\<close> and \<^verbatim>\<open>_extract_intent\<close>\<close>

text \<open>
  The regular expressions of the pattern table use literal words, alternation, the
  word boundary \<^verbatim>\<open>\b\<close> and \<^verbatim>\<open>.*\<close> only. A position in the text is the character
  before it (none at the start) and the text from it on. \<open>rmatch r p\<close> lists the
  positions at which a match of \<open>r\<close> that starts at \<open>p\<close> can end; \<^verbatim>\<open>re.search\<close> succeeds
  when some start position has a match. Letters are compared without case
  (\<^verbatim>\<open>re.IGNORECASE\<close>), and the dot matches every character but the line feed.
\<close>

datatype regex =
    Lit string
  | WordB
  | DotStar
  | Fail
  | Alt regex regex
  | Cat regex regex

type_synonym pos = "char option \<times> string"

definition word_boundary :: "pos \<Rightarrow> bool" where
  "word_boundary p =
     ((case fst p of None \<Rightarrow> False | Some c \<Rightarrow> is_word c)
      \<noteq> (case snd p of [] \<Rightarrow> False | c # cs \<Rightarrow> is_word c))"

primrec lit :: "string \<Rightarrow> pos \<Rightarrow> pos option" where
  "lit [] p = Some p"
| "lit (x # w) p =
     (case snd p of
        [] \<Rightarrow> None
      | c # cs \<Rightarrow> if lower_char c = lower_char x then lit w (Some c, cs) else None)"

fun dot_star :: "pos \<Rightarrow> pos list" where
  "dot_star (prev, []) = [(prev, [])]"
| "dot_star (prev, c # cs) =
     (prev, c # cs) # (if c = CHR 0x0A then [] else dot_star (Some c, cs))"

primrec rmatch :: "regex \<Rightarrow> pos \<Rightarrow> pos list" where
  "rmatch (Lit w) p = (case lit w p of None \<Rightarrow> [] | Some q \<Rightarrow> [q])"
| "rmatch WordB p = (if word_boundary p then [p] else [])"
| "rmatch DotStar p = dot_star p"
| "rmatch Fail p = []"
| "rmatch (Alt r1 r2) p = rmatch r1 p @ rmatch r2 p"
| "rmatch (Cat r1 r2) p = concat (map (rmatch r2) (rmatch r1 p))"

fun search_from :: "regex \<Rightarrow> pos \<Rightarrow> bool" where
  "search_from r (prev, []) = (rmatch r (prev, []) \<noteq> [])"
| "search_from r (prev, c # cs) =
     (rmatch r (prev, c # cs) \<noteq> [] \<or> search_from r (Some c, cs))"

definition re_search :: "regex \<Rightarrow> string \<Rightarrow> bool" where
  "re_search r s = search_from r (None, s)"

text \<open>\<^verbatim>\<open>\b(w1|w2|...)\b\<close>\<close>

definition one_of :: "string list \<Rightarrow> regex" where
  "one_of ws = Cat WordB (Cat (foldr (\<lambda>w r. Alt (Lit w) r) ws Fail) WordB)"

text \<open>\<^verbatim>\<open>\b(v1|v2|...)\b.*\b(w1|w2|...)\b\<close>, the shape of every pattern of the table.\<close>

definition pattern :: "string list \<Rightarrow> string list \<Rightarrow> regex" where
  "pattern vs ws = Cat (one_of vs) (Cat DotStar (one_of ws))"

definition query_patterns :: "(string \<times> regex list) list" where
  "query_patterns =
     [(''pest_control'',
         [pattern [''control'', ''kill'', ''remove'', ''eliminate'', ''manage'']
                  [''pest'', ''insect'', ''bug'', ''aphid'', ''whitefly''],
          pattern [''aphid'', ''whitefly'', ''thrips'', ''mite'', ''borer'', ''caterpillar'']
                  [''control'', ''treatment'', ''solution'']]),
      (''disease_management'',
         [pattern [''disease'', ''infection'', ''fungus'', ''virus'', ''bacterial'']
                  [''treatment'', ''cure'', ''control''],
          pattern [''blight'', ''spot'', ''rot'', ''wilt'', ''mildew'']
                  [''manage'', ''treat'', ''prevent'']]),
      (''fertilizer'',
         [pattern [''fertilizer'', ''nutrient'', ''npk'', ''urea'', ''dap'']
                  [''apply'', ''use'', ''recommend''],
          pattern [''nitrogen'', ''phosphorus'', ''potassium'']
                  [''deficiency'', ''requirement'']]),
      (''crop_management'',
         [pattern [''grow'', ''cultivate'', ''plant'']
                  [''crop'', ''vegetable'', ''grain''],
          pattern [''irrigation'', ''watering'', ''drainage'']
                  [''method'', ''system'', ''schedule'']]),
      (''government_schemes'',
         [pattern [''scheme'', ''subsidy'', ''loan'', ''insurance'', ''policy'']
                  [''farmer'', ''agriculture''],
          pattern [''pm kisan'', ''pradhan mantri'', ''government'']
                  [''benefit'', ''apply'', ''register'']])]"

record intent =
  intent_type :: string
  intent_action :: "string option"
  intent_subject :: "string option"
  intent_confidence :: real

text \<open>
  The two nested loops over the groups and their patterns: the first pattern that
  matches sets the type and the confidence and ends the inner loop, and a positive
  confidence ends the outer one.
\<close>

fun scan_groups :: "(string \<times> regex list) list \<Rightarrow> string \<Rightarrow> intent \<Rightarrow> intent" where
  "scan_groups [] query it = it"
| "scan_groups ((ty, patterns) # groups) query it =
     (let it' = (if \<exists>p \<in> set patterns. re_search p query
                 then it\<lparr>intent_type := ty, intent_confidence := 0.9\<rparr> else it)
      in if 0 < intent_confidence it' then it' else scan_groups groups query it')"

definition action_verbs :: "string list" where
  "action_verbs =
     [''control'', ''treat'', ''prevent'', ''apply'', ''use'', ''grow'', ''plant'', ''harvest'']"

definition extract_intent :: "string \<Rightarrow> intent" where
  "extract_intent query =
     (let it = scan_groups query_patterns query
                 \<lparr>intent_type = ''general'', intent_action = None, intent_subject = None,
                  intent_confidence = 0\<rparr>
      in it\<lparr>intent_action :=
               (case find (\<lambda>verb. str_in verb query) action_verbs of
                  None \<Rightarrow> intent_action it | Some verb \<Rightarrow> Some verb)\<rparr>)"

subsection \<open>Synonym Expander: \<^verbatim>\<open>_load_synonyms\<close> and \<^verbatim>\<open>_expand_query\<close>\<close>

definition synonyms :: "(string \<times> string list) list" where
  "synonyms =
     [(''pest'', [''insect'', ''bug'', ''parasite'', ''infestation'']),
      (''disease'', [''infection'', ''sickness'', ''ailment'', ''disorder'']),
      (''fertilizer'', [''nutrient'', ''manure'', ''compost'', ''feed'']),
      (''crop'', [''plant'', ''vegetation'', ''produce'', ''harvest'']),
      (''control'', [''manage'', ''eliminate'', ''remove'', ''treat'']),
      (''organic'', [''natural'', ''bio'', ''eco-friendly'', ''chemical-free'']),
      (''yield'', [''production'', ''output'', ''harvest'', ''productivity''])]"

definition expand_query :: "string \<Rightarrow> string list" where
  "expand_query query =
     query # concat (map (\<lambda>word. case map_of synonyms word of
                                    None \<Rightarrow> []
                                  | Some syns \<Rightarrow> map (\<lambda>synonym. replace query word synonym) syns)
                         (split_ws query))"

subsection \<open>Values of the knowledge mapping\<close>

text \<open>
  The knowledge mapping is a Python dictionary from topic strings to entries; it is
  an association list here, in the dictionary's iteration order. An entry is any
  Python value: the engine tests \<^verbatim>\<open>isinstance(data, dict)\<close> and then reads fields
  whose values it does not check. \<open>PInt\<close> stands for every number (\<^verbatim>\<open>bool\<close> and \<^verbatim>\<open>float\<close>
  behave like \<^verbatim>\<open>int\<close> in each operation below), and a dictionary value has string
  keys, the first binding of a key being the one in force. The exceptions the
  operations raise are values of \<open>py_error\<close>.
\<close>

datatype pyval =
    PNone
  | PInt int
  | PStr string
  | PList "pyval list"
  | PDict "(string \<times> pyval) list"

datatype py_error = TypeError | AttributeError

definition then_do :: "py_error + 'a \<Rightarrow> ('a \<Rightarrow> py_error + 'b) \<Rightarrow> py_error + 'b" where
  "then_do m f = (case m of Inl e \<Rightarrow> Inl e | Inr x \<Rightarrow> f x)"

text \<open>\<^verbatim>\<open>for x in v\<close>: the elements of a list, the characters of a string, the keys of a dictionary.\<close>

definition py_iter :: "pyval \<Rightarrow> py_error + pyval list" where
  "py_iter v =
     (case v of
        PList xs \<Rightarrow> Inr xs
      | PStr s \<Rightarrow> Inr (map (\<lambda>c. PStr [c]) s)
      | PDict d \<Rightarrow> Inr (map (\<lambda>kv. PStr (fst kv)) d)
      | _ \<Rightarrow> Inl TypeError)"

text \<open>\<^verbatim>\<open>v in query\<close> for a string \<open>query\<close>: a left operand that is not a string raises.\<close>

definition py_in_str :: "pyval \<Rightarrow> string \<Rightarrow> py_error + bool" where
  "py_in_str v query = (case v of PStr s \<Rightarrow> Inr (str_in s query) | _ \<Rightarrow> Inl TypeError)"

text \<open>\<^verbatim>\<open>v.lower().split()\<close>: only a string has the method.\<close>

definition py_lower_split :: "pyval \<Rightarrow> py_error + string list" where
  "py_lower_split v = (case v of PStr s \<Rightarrow> Inr (split_ws (lower s)) | _ \<Rightarrow> Inl AttributeError)"

text \<open>The truth value of \<^verbatim>\<open>if v:\<close>\<close>

definition truthy :: "pyval \<Rightarrow> bool" where
  "truthy v =
     (case v of
        PNone \<Rightarrow> False
      | PInt i \<Rightarrow> i \<noteq> 0
      | PStr s \<Rightarrow> s \<noteq> []
      | PList xs \<Rightarrow> xs \<noteq> []
      | PDict d \<Rightarrow> d \<noteq> [])"

subsection \<open>Relevance scoring: \<^verbatim>\<open>_calculate_relevance\<close>\<close>

text \<open>
  Scores are Python floats; the model computes them as exact reals, so the rounding
  of \<^verbatim>\<open>similarity * 3.0\<close> and of the boost \<^verbatim>\<open>* 1.2\<close> is not part of it.
\<close>

definition key_score :: "string \<Rightarrow> string \<Rightarrow> real" where
  "key_score query key =
     (if str_in key query then 10 else 0)
     + (if \<exists>word \<in> set (split_ws key). str_in word query then 5 else 0)
     + ratio query key * 3"

text \<open>\<^verbatim>\<open>for x in xs: if x in query: score += w\<close>\<close>

fun add_matches :: "real \<Rightarrow> string \<Rightarrow> pyval list \<Rightarrow> real \<Rightarrow> py_error + real" where
  "add_matches w query [] score = Inr score"
| "add_matches w query (x # xs) score =
     then_do (py_in_str x query)
       (\<lambda>found. add_matches w query xs (if found then score + w else score))"

definition list_field_score ::
    "string \<Rightarrow> real \<Rightarrow> string \<Rightarrow> (string \<times> pyval) list \<Rightarrow> real \<Rightarrow> py_error + real" where
  "list_field_score field w query d score =
     (case map_of d field of
        None \<Rightarrow> Inr score
      | Some v \<Rightarrow> then_do (py_iter v) (\<lambda>xs. add_matches w query xs score))"

definition category_score :: "string \<Rightarrow> (string \<times> pyval) list \<Rightarrow> real \<Rightarrow> py_error + real" where
  "category_score query d score =
     (case map_of d ''category'' of
        None \<Rightarrow> Inr score
      | Some v \<Rightarrow> then_do (py_in_str v query) (\<lambda>found. Inr (if found then score + 3 else score)))"

definition solution_score :: "string \<Rightarrow> (string \<times> pyval) list \<Rightarrow> real \<Rightarrow> py_error + real" where
  "solution_score query d score =
     (case map_of d ''solution'' of
        None \<Rightarrow> Inr score
      | Some v \<Rightarrow>
          then_do (py_lower_split v)
            (\<lambda>solution_words.
               Inr (score + real (card (set solution_words \<inter> set (split_ws query))) * 0.5)))"

definition calculate_relevance :: "string \<Rightarrow> string \<Rightarrow> pyval \<Rightarrow> py_error + real" where
  "calculate_relevance query key data =
     (case data of
        PDict d \<Rightarrow>
          then_do (list_field_score ''crops'' 4 query d (key_score query key))
            (\<lambda>s1. then_do (category_score query d s1)
               (\<lambda>s2. then_do (list_field_score ''symptoms'' 2 query d s2)
                  (solution_score query d)))
      | _ \<Rightarrow> Inr (key_score query key))"

subsection \<open>Knowledge Matcher: \<^verbatim>\<open>_search_knowledge_base\<close>\<close>

record search_result =
  r_key :: string
  r_data :: pyval
  r_score :: real
  r_matched_query :: string

text \<open>The inner loop over the entries, with the results so far and the keys seen.\<close>

fun scan_entries ::
    "string \<Rightarrow> (string \<times> pyval) list \<Rightarrow> search_result list \<times> string set
     \<Rightarrow> py_error + search_result list \<times> string set" where
  "scan_entries query [] st = Inr st"
| "scan_entries query ((key, data) # kb) (results, seen_keys) =
     (if key \<in> seen_keys then scan_entries query kb (results, seen_keys)
      else then_do (calculate_relevance query key data)
             (\<lambda>score.
                if 0 < score
                then scan_entries query kb
                       (results @ [\<lparr>r_key = key, r_data = data, r_score = score,
                                     r_matched_query = query\<rparr>],
                        insert key seen_keys)
                else scan_entries query kb (results, seen_keys)))"

text \<open>The outer loop over the query variants.\<close>

fun scan_queries ::
    "string list \<Rightarrow> (string \<times> pyval) list \<Rightarrow> search_result list \<times> string set
     \<Rightarrow> py_error + search_result list \<times> string set" where
  "scan_queries [] kb st = Inr st"
| "scan_queries (query # queries) kb st =
     then_do (scan_entries query kb st) (scan_queries queries kb)"

definition search_knowledge_base ::
    "string list \<Rightarrow> (string \<times> pyval) list \<Rightarrow> py_error + search_result list" where
  "search_knowledge_base queries knowledge_base =
     then_do (scan_queries queries knowledge_base ([], {})) (\<lambda>st. Inr (fst st))"

subsection \<open>Ranker: \<^verbatim>\<open>_rank_results\<close>\<close>

text \<open>
  \<^verbatim>\<open>sorted(results, key=lambda x: x['score'], reverse=True)\<close>: descending by score,
  results of equal score in their former order.
\<close>

definition sort_desc :: "search_result list \<Rightarrow> search_result list" where
  "sort_desc rs = sort_key (\<lambda>r. - r_score r) rs"

text \<open>\<^verbatim>\<open>intent['type'].split('_')[0]\<close>\<close>

definition topic_prefix :: "string \<Rightarrow> string" where
  "topic_prefix ty = takeWhile (\<lambda>c. c \<noteq> CHR ''_'') ty"

text \<open>
  \<^verbatim>\<open>result['data'].get('category') == prefix\<close>: only a dictionary has \<^verbatim>\<open>get\<close>; a missing
  category is \<^verbatim>\<open>None\<close>, which is not equal to a string.
\<close>

definition boost :: "string \<Rightarrow> search_result \<Rightarrow> py_error + search_result" where
  "boost ty r =
     (case r_data r of
        PDict d \<Rightarrow>
          Inr (if map_of d ''category'' = Some (PStr (topic_prefix ty))
               then r\<lparr>r_score := r_score r * 1.2\<rparr> else r)
      | _ \<Rightarrow> Inl AttributeError)"

fun boost_all :: "string \<Rightarrow> search_result list \<Rightarrow> py_error + search_result list" where
  "boost_all ty [] = Inr []"
| "boost_all ty (r # rs) =
     then_do (boost ty r) (\<lambda>r'. then_do (boost_all ty rs) (\<lambda>rs'. Inr (r' # rs')))"

definition rank_results ::
    "search_result list \<Rightarrow> string \<Rightarrow> intent \<Rightarrow> py_error + search_result list" where
  "rank_results results query it =
     (let ranked = sort_desc results
      in then_do (if intent_type it \<noteq> ''general'' then boost_all (intent_type it) ranked
                  else Inr ranked)
           (\<lambda>ranked. Inr (sort_desc ranked)))"

subsection \<open>Context Refiner: \<^verbatim>\<open>_apply_context\<close>\<close>

definition apply_context ::
    "search_result list \<Rightarrow> (string \<times> pyval) list \<Rightarrow> search_result list" where
  "apply_context results context = results"

subsection \<open>Suggestion Generator: \<^verbatim>\<open>_generate_suggestions\<close>\<close>

text \<open>
  Two things are the Python run time's and not the engine's: the text of a value
  that is not a string inside an f-string, and the order in which a set of strings
  is listed, which changes with the hash seed of the process. Both are parameters.
  A listing of a set has each element once.
\<close>

record runtime =
  str_of :: "pyval \<Rightarrow> string"
  list_of_set :: "string list \<Rightarrow> string list"

definition set_listing :: "runtime \<Rightarrow> bool" where
  "set_listing rt =
     (\<forall>xs. distinct (list_of_set rt xs) \<and> set (list_of_set rt xs) = set xs)"

definition py_str :: "runtime \<Rightarrow> pyval \<Rightarrow> string" where
  "py_str rt v = (case v of PStr s \<Rightarrow> s | _ \<Rightarrow> str_of rt v)"

text \<open>
  \<^verbatim>\<open>for crop in v[:2]\<close>: the first two elements of a list, the first two characters of
  a string; other values cannot be sliced (a dictionary raises \<^verbatim>\<open>TypeError\<close> up to
  Python 3.11 and \<^verbatim>\<open>KeyError\<close> from 3.12 on; the model has the former).
\<close>

definition first_two :: "pyval \<Rightarrow> py_error + pyval list" where
  "first_two v =
     (case v of
        PList xs \<Rightarrow> Inr (take 2 xs)
      | PStr s \<Rightarrow> Inr (map (\<lambda>c. PStr [c]) (take 2 s))
      | _ \<Rightarrow> Inl TypeError)"

definition entry_suggestions :: "runtime \<Rightarrow> search_result \<Rightarrow> py_error + string list" where
  "entry_suggestions rt r =
     (case r_data r of
        PDict d \<Rightarrow>
          then_do (case map_of d ''crops'' of
                     None \<Rightarrow> Inr []
                   | Some v \<Rightarrow>
                       then_do (first_two v)
                         (\<lambda>crops. Inr (map (\<lambda>crop. ''How to manage '' @ r_key r @ '' in ''
                                                     @ py_str rt crop @ ''?'') crops)))
            (\<lambda>managing.
               Inr (managing @
                    (case map_of d ''prevention'' of
                       None \<Rightarrow> []
                     | Some v \<Rightarrow> if truthy v then [''How to prevent '' @ r_key r @ ''?'']
                                 else [])))
      | _ \<Rightarrow> Inr [])"

fun collect_suggestions :: "runtime \<Rightarrow> search_result list \<Rightarrow> py_error + string list" where
  "collect_suggestions rt [] = Inr []"
| "collect_suggestions rt (r # rs) =
     then_do (entry_suggestions rt r)
       (\<lambda>here. then_do (collect_suggestions rt rs) (\<lambda>rest. Inr (here @ rest)))"

definition generate_suggestions ::
    "runtime \<Rightarrow> string \<Rightarrow> search_result list \<Rightarrow> py_error + string list" where
  "generate_suggestions rt query results =
     then_do (collect_suggestions rt (take 5 results))
       (\<lambda>suggestions. Inr (take 5 (list_of_set rt suggestions)))"

subsection \<open>History Tracker: \<^verbatim>\<open>_update_search_history\<close>\<close>

record history_entry =
  h_query :: string
  h_timestamp :: string
  h_results_count :: nat

text \<open>The fields of the engine object that \<^verbatim>\<open>search\<close> writes.\<close>

record engine =
  search_history :: "history_entry list"
  total_searches :: nat

definition new_engine :: engine where
  "new_engine = \<lparr>search_history = [], total_searches = 0\<rparr>"

definition update_search_history ::
    "engine \<Rightarrow> string \<Rightarrow> search_result list \<Rightarrow> string \<Rightarrow> engine" where
  "update_search_history eng query results now =
     (let history = search_history eng
                      @ [\<lparr>h_query = query, h_timestamp = now,
                          h_results_count = length results\<rparr>]
      in eng\<lparr>search_history :=
               (if 100 < length history then drop (length history - 100) history
                else history)\<rparr>)"

subsection \<open>The pipeline: \<^verbatim>\<open>search\<close>\<close>

record outcome =
  o_query :: string
  o_processed_query :: string
  o_intent :: intent
  o_results :: "search_result list"
  o_total_results :: nat
  o_search_time :: string
  o_suggestions :: "string list"

text \<open>
  \<^verbatim>\<open>search\<close> takes the engine and returns it updated, next to the outcome or the
  exception that ended the call; what was written before an exception stays
  written. The two readings of the clock, for the history entry and for the
  outcome, are arguments.
\<close>

definition search ::
    "runtime \<Rightarrow> engine \<Rightarrow> string \<Rightarrow> (string \<times> pyval) list \<Rightarrow> (string \<times> pyval) list option
     \<Rightarrow> string \<Rightarrow> string \<Rightarrow> (py_error + outcome) \<times> engine" where
  "search rt eng query knowledge_base context now1 now2 =
     (let eng1 = eng\<lparr>total_searches := total_searches eng + 1\<rparr>;
          processed_query = preprocess_query query;
          it = extract_intent processed_query;
          expanded_query = expand_query processed_query
      in case then_do (search_knowledge_base expanded_query knowledge_base)
                (\<lambda>results. rank_results results processed_query it) of
           Inl e \<Rightarrow> (Inl e, eng1)
         | Inr ranked \<Rightarrow>
             (let ranked_results =
                    (case context of
                       None \<Rightarrow> ranked
                     | Some c \<Rightarrow> if c \<noteq> [] then apply_context ranked c else ranked);
                  eng2 = update_search_history eng1 query ranked_results now1
              in (then_do (generate_suggestions rt query ranked_results)
                    (\<lambda>suggestions.
                       Inr \<lparr>o_query = query, o_processed_query = processed_query,
                            o_intent = it, o_results = take 10 ranked_results,
                            o_total_results = length ranked_results,
                            o_search_time = now2, o_suggestions = suggestions\<rparr>),
                  eng2)))"

subsection \<open>Sequences of calls\<close>

text \<open>
  A run of the engine is a list of calls of \<^verbatim>\<open>search\<close>, each with its query, knowledge
  mapping, context and clock readings; \<open>appends\<close> is a run of the history update alone.
  \<open>last_n n xs\<close> is the slice \<^verbatim>\<open>xs[-n:]\<close> for a positive \<open>n\<close>.
\<close>

type_synonym call = "string \<times> (string \<times> pyval) list \<times> (string \<times> pyval) list option \<times> string \<times> string"

fun searches :: "runtime \<Rightarrow> engine \<Rightarrow> call list \<Rightarrow> engine" where
  "searches rt eng [] = eng"
| "searches rt eng ((query, kb, context, now1, now2) # calls) =
     searches rt (snd (search rt eng query kb context now1 now2)) calls"

definition entry_of :: "string \<times> search_result list \<times> string \<Rightarrow> history_entry" where
  "entry_of a = (case a of (query, results, now) \<Rightarrow>
     \<lparr>h_query = query, h_timestamp = now, h_results_count = length results\<rparr>)"

fun appends :: "engine \<Rightarrow> (string \<times> search_result list \<times> string) list \<Rightarrow> engine" where
  "appends eng [] = eng"
| "appends eng ((query, results, now) # rest) =
     appends (update_search_history eng query results now) rest"

definition last_n :: "nat \<Rightarrow> 'a list \<Rightarrow> 'a list" where
  "last_n n xs = drop (length xs - n) xs"

subsection \<open>Notions the claims speak of\<close>

text \<open>
  The category of an entry, the boost of one result as the specification words it,
  an intent with a given topic, and the two results of the boost example, listed
  with the disease entry first.
\<close>

definition entry_category :: "pyval \<Rightarrow> pyval option" where
  "entry_category data = (case data of PDict d \<Rightarrow> map_of d ''category'' | _ \<Rightarrow> None)"

definition is_dict :: "pyval \<Rightarrow> bool" where
  "is_dict data = (case data of PDict d \<Rightarrow> True | _ \<Rightarrow> False)"

definition boosted :: "string \<Rightarrow> search_result \<Rightarrow> search_result" where
  "boosted topic r =
     (if entry_category (r_data r) = Some (PStr topic) then r\<lparr>r_score := r_score r * 1.2\<rparr>
      else r)"

definition topic_intent :: "string \<Rightarrow> intent" where
  "topic_intent ty =
     \<lparr>intent_type = ty, intent_action = None, intent_subject = None, intent_confidence = 0.9\<rparr>"

definition two_entries :: "search_result list" where
  "two_entries =
     [\<lparr>r_key = ''leaf spot'', r_data = PDict [(''category'', PStr ''disease'')], r_score = 10,
       r_matched_query = ''q''\<rparr>,
      \<lparr>r_key = ''aphids'', r_data = PDict [(''category'', PStr ''pest'')], r_score = 10,
       r_matched_query = ''q''\<rparr>]"

text \<open>
  Writing a field of an entry (\<^verbatim>\<open>d[k] = v\<close>), the crop list of an entry (empty when
  the field is absent, none when the field is not a list), the part of the score
  that comes after the crops, and an entry for the crop example.
\<close>

fun dict_set :: "string \<Rightarrow> pyval \<Rightarrow> (string \<times> pyval) list \<Rightarrow> (string \<times> pyval) list" where
  "dict_set k v [] = [(k, v)]"
| "dict_set k v ((k', v') # d) = (if k' = k then (k, v) # d else (k', v') # dict_set k v d)"

definition crop_list :: "(string \<times> pyval) list \<Rightarrow> pyval list option" where
  "crop_list d =
     (case map_of d ''crops'' of
        None \<Rightarrow> Some []
      | Some (PList crops) \<Rightarrow> Some crops
      | Some _ \<Rightarrow> None)"

definition field_scores :: "string \<Rightarrow> (string \<times> pyval) list \<Rightarrow> real \<Rightarrow> py_error + real" where
  "field_scores query d s1 =
     then_do (category_score query d s1)
       (\<lambda>s2. then_do (list_field_score ''symptoms'' 2 query d s2) (solution_score query d))"

definition mustard_entry :: "(string \<times> pyval) list" where
  "mustard_entry = [(''crops'', PList [PStr ''wheat'']), (''category'', PStr ''pest'')]"

text \<open>
  What the matcher records: \<open>positive_at key data query\<close> says that the entry scores
  above zero against the variant, and a result is \<open>recorded\<close> for a list of variants
  when it holds an entry of the mapping, the first variant at which that entry is
  positive, and the score against that variant. The two predicates after it are the
  invariant of the two loops; the results and the mapping of three entries after
  them are an example.
\<close>

definition positive_at :: "string \<Rightarrow> pyval \<Rightarrow> string \<Rightarrow> bool" where
  "positive_at key data query =
     (case calculate_relevance query key data of Inl e \<Rightarrow> False | Inr score \<Rightarrow> 0 < score)"

definition recorded :: "(string \<times> pyval) list \<Rightarrow> string list \<Rightarrow> search_result \<Rightarrow> bool" where
  "recorded kb queries r =
     ((r_key r, r_data r) \<in> set kb
      \<and> find (positive_at (r_key r) (r_data r)) queries = Some (r_matched_query r)
      \<and> calculate_relevance (r_matched_query r) (r_key r) (r_data r) = Inr (r_score r))"

definition well_recorded ::
    "(string \<times> pyval) list \<Rightarrow> string list \<Rightarrow> search_result list \<Rightarrow> string set \<Rightarrow> bool" where
  "well_recorded kb queries rs seen =
     (seen = r_key ` set rs \<and> distinct (map r_key rs) \<and> (\<forall>r \<in> set rs. recorded kb queries r))"

definition unseen_not_positive ::
    "(string \<times> pyval) list \<Rightarrow> string set \<Rightarrow> string list \<Rightarrow> bool" where
  "unseen_not_positive es seen queries =
     (\<forall>(k, d) \<in> set es. k \<notin> seen \<longrightarrow> (\<forall>q \<in> set queries. \<not> positive_at k d q))"

definition aphid_result :: search_result where
  "aphid_result =
     \<lparr>r_key = ''aphids'', r_data = PDict [], r_score = 30 / 11, r_matched_query = ''aphid''\<rparr>"

definition xyz_result :: search_result where
  "xyz_result = \<lparr>r_key = ''xyz'', r_data = PDict [], r_score = 18, r_matched_query = ''xyz''\<rparr>"

definition three_entries :: "(string \<times> pyval) list" where
  "three_entries = [(''aphids'', PDict []), (''mmm'', PDict []), (''xyz'', PDict [])]"

text \<open>The ranked output of a call: the results it returns and their total number, or the exception.\<close>

definition ranking :: "py_error + outcome \<Rightarrow> py_error + search_result list \<times> nat" where
  "ranking res = (case res of Inl e \<Rightarrow> Inl e | Inr out \<Rightarrow> Inr (o_results out, o_total_results out))"

text \<open>
  A run time for the examples, and two mappings with one malformed entry each: a crop
  list that holds a number, and a solution that is a number.
\<close>

definition plain_runtime :: runtime where
  "plain_runtime = \<lparr>str_of = (\<lambda>v. ''''), list_of_set = remdups\<rparr>"

definition bad_crops_kb :: "(string \<times> pyval) list" where
  "bad_crops_kb = [(''bad'', PDict [(''crops'', PList [PInt 5])]), (''aphids'', PDict [])]"

definition bad_solution_kb :: "(string \<times> pyval) list" where
  "bad_solution_kb = [(''aphids'', PDict []), (''bad'', PDict [(''solution'', PInt 5)])]"

text \<open>
  Entries that a query cannot reach. \<open>field_ok P d field\<close> says that the field is absent
  or its value satisfies \<open>P\<close>; \<open>all_strings P\<close> is a list of strings that all satisfy
  \<open>P\<close>, \<open>a_string P\<close> one such string. An entry is \<open>unrelated\<close> to a query when its key
  is not empty and has no character of the query, no crop, category or symptom of it
  is part of the query, and its solution has no word of the query. A \<open>plain_entry\<close>
  has a key, crop names, a category and symptoms that are non-empty strings, and a
  solution that is a string. \<open>no_results\<close> is the outcome of a search that found
  nothing; \<open>aphids_kb\<close> is the mapping of the aphids example.
\<close>

definition all_strings :: "(string \<Rightarrow> bool) \<Rightarrow> pyval \<Rightarrow> bool" where
  "all_strings P v =
     (case v of PList xs \<Rightarrow> list_all (\<lambda>x. case x of PStr s \<Rightarrow> P s | _ \<Rightarrow> False) xs | _ \<Rightarrow> False)"

definition a_string :: "(string \<Rightarrow> bool) \<Rightarrow> pyval \<Rightarrow> bool" where
  "a_string P v = (case v of PStr s \<Rightarrow> P s | _ \<Rightarrow> False)"

definition field_ok :: "(pyval \<Rightarrow> bool) \<Rightarrow> (string \<times> pyval) list \<Rightarrow> string \<Rightarrow> bool" where
  "field_ok P d field = (case map_of d field of None \<Rightarrow> True | Some v \<Rightarrow> P v)"

definition unrelated :: "string \<Rightarrow> string \<times> pyval \<Rightarrow> bool" where
  "unrelated q e =
     (fst e \<noteq> [] \<and> set (fst e) \<inter> set q = {}
      \<and> (case snd e of
            PDict d \<Rightarrow>
              field_ok (all_strings (\<lambda>s. \<not> str_in s q)) d ''crops''
              \<and> field_ok (a_string (\<lambda>s. \<not> str_in s q)) d ''category''
              \<and> field_ok (all_strings (\<lambda>s. \<not> str_in s q)) d ''symptoms''
              \<and> field_ok (a_string (\<lambda>s. set (split_ws (lower s)) \<inter> set (split_ws q) = {})) d
                    ''solution''
          | _ \<Rightarrow> True))"

definition plain_entry :: "string \<times> pyval \<Rightarrow> bool" where
  "plain_entry e =
     (fst e \<noteq> []
      \<and> (case snd e of
            PDict d \<Rightarrow>
              field_ok (all_strings (\<lambda>s. s \<noteq> [])) d ''crops''
              \<and> field_ok (a_string (\<lambda>s. s \<noteq> [])) d ''category''
              \<and> field_ok (all_strings (\<lambda>s. s \<noteq> [])) d ''symptoms''
              \<and> field_ok (a_string (\<lambda>s. True)) d ''solution''
          | _ \<Rightarrow> True))"

definition aphids_kb :: "(string \<times> pyval) list" where
  "aphids_kb =
     [(''aphids'',
       PDict [(''crops'', PList [PStr ''mustard'', PStr ''wheat'']),
              (''category'', PStr ''pest''),
              (''symptoms'', PList [PStr ''curled leaves''])])]"

definition no_results :: "py_error + outcome \<Rightarrow> bool" where
  "no_results res =
     (case res of
        Inl e \<Rightarrow> False
      | Inr out \<Rightarrow> o_total_results out = 0 \<and> o_results out = [] \<and> o_suggestions out = [])"

text \<open>A mapping with one entry that the query "xyzabc123" cannot reach.\<close>

definition mildew_kb :: "(string \<times> pyval) list" where
  "mildew_kb =
     [(''mildew'',
       PDict [(''crops'', PList [PStr ''grape'']),
              (''category'', PStr ''disease''),
              (''symptoms'', PList [PStr ''white powder'']),
              (''solution'', PStr ''Spray sulphur'')])]"

text \<open>
  The aphids example: the query, and the result and the intent that the engine
  computes for it.
\<close>

definition aphids_query :: string where
  "aphids_query = ''How to control aphids in mustard?''"

definition aphids_result :: search_result where
  "aphids_result =
     \<lparr>r_key = ''aphids'',
      r_data = PDict [(''crops'', PList [PStr ''mustard'', PStr ''wheat'']),
                      (''category'', PStr ''pest''),
                      (''symptoms'', PList [PStr ''curled leaves''])],
      r_score = 259 / 13, r_matched_query = ''how to control aphids in mustard?''\<rparr>"

definition aphids_intent :: intent where
  "aphids_intent =
     \<lparr>intent_type = ''general'', intent_action = Some ''control'', intent_subject = None,
      intent_confidence = 0\<rparr>"

section \<open>Claims\<close>

subsection \<open>Text Normalizer\<close>

text \<open>
  Claim C4 says that the normalizer's output never has leading or trailing whitespace
  and has every whitespace run collapsed to one space. \<^verbatim>\<open>_preprocess_query\<close> strips and
  collapses first and removes the special characters last, so the whitespace that
  stood next to a removed character stays: the input \<^verbatim>\<open>hello @\<close> comes out as
  \<^verbatim>\<open>hello\<close> followed by a space, and \<^verbatim>\<open>a @ b\<close> comes out with two spaces in a row.
\<close>

theorem C4_preprocess_query_leaves_whitespace:
  "preprocess_query ''hello @'' = ''hello '' \<and>
   is_space (last (preprocess_query ''hello @'')) \<and>
   preprocess_query ''a @ b'' = ''a  b''"
  by (simp add: preprocess_query_def remove_special_def strip_def lower_def lower_char_def
      is_upper_def is_space_def code_def keep_char_def is_word_def)

subsection \<open>History Tracker\<close>

lemma update_search_history_history:
  "search_history (update_search_history eng query results now)
     = last_n 100 (search_history eng @ [entry_of (query, results, now)])"
  by (simp add: update_search_history_def Let_def last_n_def entry_of_def)

lemma length_last_n: "length (last_n n xs) \<le> n"
  by (simp add: last_n_def)

lemma last_n_append: "last_n n (last_n n xs @ ys) = last_n n (xs @ ys)"
  by (cases "n \<le> length xs") (simp_all add: last_n_def add.commute)

lemma search_history_bounded:
  "length (search_history eng) \<le> 100 \<Longrightarrow>
   length (search_history (snd (search rt eng query kb context now1 now2))) \<le> 100"
  by (simp add: search_def Let_def update_search_history_history length_last_n
      split: sum.splits option.splits)

lemma searches_bounded:
  "length (search_history eng) \<le> 100 \<Longrightarrow> length (search_history (searches rt eng calls)) \<le> 100"
proof (induction calls arbitrary: eng)
  case Nil
  then show ?case by simp
next
  case (Cons call calls)
  obtain query kb ctx now1 now2 where c: "call = (query, kb, ctx, now1, now2)"
    by (cases call)
  show ?case
    unfolding c searches.simps
    by (rule Cons.IH) (rule search_history_bounded [OF Cons.prems])
qed

lemma appends_history:
  "search_history (appends eng es) = last_n 100 (search_history eng @ map entry_of es)"
  if "length (search_history eng) \<le> 100"
  using that
proof (induction es arbitrary: eng)
  case Nil
  then show ?case by (simp add: last_n_def)
next
  case (Cons e es)
  obtain query results now where e: "e = (query, results, now)" by (cases e)
  let ?eng = "update_search_history eng query results now"
  have "length (search_history ?eng) \<le> 100"
    by (simp add: update_search_history_history length_last_n)
  then have "search_history (appends ?eng es) = last_n 100 (search_history ?eng @ map entry_of es)"
    by (rule Cons.IH)
  also have "\<dots> = last_n 100 ((search_history eng @ [entry_of e]) @ map entry_of es)"
    unfolding update_search_history_history e by (rule last_n_append)
  finally show ?case by (simp add: e)
qed

text \<open>
  Claim C9: whatever calls of \<^verbatim>\<open>search\<close> a new engine serves, its history never holds
  more than 100 entries; and after any number of appended searches the history is
  the last 100 of them in their order (all of them when there are fewer), so after
  150 it is the entries 51 to 150.
\<close>

theorem C9_history_bounded:
  "length (search_history (searches rt new_engine calls)) \<le> 100 \<and>
   search_history (appends new_engine es) = drop (length es - 100) (map entry_of es)"
  using searches_bounded [of new_engine rt calls] appends_history [of new_engine es]
  by (simp add: new_engine_def last_n_def)

subsection \<open>Ranker\<close>

lemma topic_prefix_spec:
  "CHR ''_'' \<notin> set (topic_prefix ty) \<and>
   (ty = topic_prefix ty \<or> (\<exists>rest. ty = topic_prefix ty @ CHR ''_'' # rest))"
proof -
  let ?P = "\<lambda>c. c \<noteq> CHR ''_''"
  have a: "CHR ''_'' \<notin> set (topic_prefix ty)"
    unfolding topic_prefix_def by (auto dest: set_takeWhileD)
  have split: "ty = takeWhile ?P ty @ dropWhile ?P ty"
    by simp
  have "ty = takeWhile ?P ty \<or> (\<exists>rest. ty = takeWhile ?P ty @ CHR ''_'' # rest)"
  proof (cases "dropWhile ?P ty")
    case Nil
    with split show ?thesis by simp
  next
    case (Cons x rest)
    then have "x = CHR ''_''"
      using hd_dropWhile [of ?P ty] by simp
    with Cons split show ?thesis by metis
  qed
  with a show ?thesis by (simp add: topic_prefix_def)
qed

lemma boost_dict: "is_dict (r_data r) \<Longrightarrow> boost ty r = Inr (boosted (topic_prefix ty) r)"
  by (auto simp: boost_def boosted_def entry_category_def is_dict_def split: pyval.splits)

lemma boost_all_dicts:
  "\<forall>r \<in> set rs. is_dict (r_data r) \<Longrightarrow> boost_all ty rs = Inr (map (boosted (topic_prefix ty)) rs)"
  by (induction rs) (simp_all add: boost_dict then_do_def)

lemma sort_desc_sorted: "sorted_wrt (\<lambda>a b. r_score b \<le> r_score a) (sort_desc rs)"
proof -
  have "sorted (map (\<lambda>r. - r_score r) (sort_desc rs))"
    unfolding sort_desc_def by (rule sorted_sort_key)
  then show ?thesis by (simp add: sorted_map sorted_wrt_iff_nth_less)
qed

lemma mset_sort_desc: "mset (sort_desc rs) = mset rs"
  by (simp add: sort_desc_def)

lemma set_sort_desc: "set (sort_desc rs) = set rs"
  by (simp add: sort_desc_def)

lemma rank_results_boosted:
  assumes "intent_type it \<noteq> ''general''" "\<forall>r \<in> set results. is_dict (r_data r)"
  shows "rank_results results query it
           = Inr (sort_desc (map (boosted (topic_prefix (intent_type it))) (sort_desc results)))"
  using assms by (simp add: rank_results_def Let_def then_do_def boost_all_dicts set_sort_desc)

lemma rank_two_entries:
  "rank_results two_entries ''q'' (topic_intent ''pest_control'')
     = Inr [\<lparr>r_key = ''aphids'', r_data = PDict [(''category'', PStr ''pest'')], r_score = 12,
             r_matched_query = ''q''\<rparr>,
            \<lparr>r_key = ''leaf spot'', r_data = PDict [(''category'', PStr ''disease'')],
             r_score = 10, r_matched_query = ''q''\<rparr>]"
  by (simp add: rank_results_def Let_def then_do_def two_entries_def topic_intent_def
      sort_desc_def boost_def topic_prefix_def)

text \<open>
  Claim C8: when the intent topic is not "general" and every result carries a
  dictionary entry, the ranker returns the results with the score of each one whose
  category equals the topic's prefix multiplied by 1.2 and the others unchanged,
  sorted by descending score; the prefix has no underscore and is the whole topic or
  is followed in it by an underscore. The instance of the claim (topic
  "pest_control", two results of score 10, the "pest" one ending at 12 and first)
  is the witness.
\<close>

theorem C8_intent_boost:
  assumes "intent_type it \<noteq> ''general''" and "\<forall>r \<in> set results. is_dict (r_data r)"
  shows "\<exists>ranked. rank_results results query it = Inr ranked
           \<and> mset ranked = mset (map (boosted (topic_prefix (intent_type it))) results)
           \<and> sorted_wrt (\<lambda>a b. r_score b \<le> r_score a) ranked
           \<and> CHR ''_'' \<notin> set (topic_prefix (intent_type it))
           \<and> (intent_type it = topic_prefix (intent_type it)
                \<or> (\<exists>rest. intent_type it = topic_prefix (intent_type it) @ CHR ''_'' # rest))"
  using rank_results_boosted [OF assms] topic_prefix_spec [of "intent_type it"]
  by (simp add: sort_desc_sorted mset_sort_desc)

theorem C8_intent_boost_witness:
  "intent_type (topic_intent ''pest_control'') \<noteq> ''general''
   \<and> map (\<lambda>r. is_dict (r_data r)) two_entries = [True, True]
   \<and> map r_key two_entries = [''leaf spot'', ''aphids'']
   \<and> map r_score two_entries = [10, 10]
   \<and> (\<exists>ranked. rank_results two_entries ''q'' (topic_intent ''pest_control'') = Inr ranked
         \<and> map r_key ranked = [''aphids'', ''leaf spot'']
         \<and> map r_score ranked = [12, 10]
         \<and> mset ranked = mset (map (boosted ''pest'') two_entries))"
proof -
  have h1: "intent_type (topic_intent ''pest_control'') \<noteq> ''general''"
    by (simp add: topic_intent_def)
  have h2: "\<forall>r \<in> set two_entries. is_dict (r_data r)"
    by (simp add: two_entries_def is_dict_def)
  have p: "topic_prefix (intent_type (topic_intent ''pest_control'')) = ''pest''"
    by (simp add: topic_intent_def topic_prefix_def)
  from C8_intent_boost [OF h1 h2, of "''q''"] obtain ranked where
    r: "rank_results two_entries ''q'' (topic_intent ''pest_control'') = Inr ranked"
    and m: "mset ranked = mset (map (boosted ''pest'') two_entries)"
    unfolding p by blast
  from r have "ranked = [\<lparr>r_key = ''aphids'', r_data = PDict [(''category'', PStr ''pest'')], r_score = 12,
             r_matched_query = ''q''\<rparr>,
            \<lparr>r_key = ''leaf spot'', r_data = PDict [(''category'', PStr ''disease'')],
             r_score = 10, r_matched_query = ''q''\<rparr>]"
    by (simp add: rank_two_entries)
  then have "map r_key ranked = [''aphids'', ''leaf spot''] \<and> map r_score ranked = [12, 10]"
    by simp
  moreover have "map (\<lambda>r. is_dict (r_data r)) two_entries = [True, True]"
    by (simp add: two_entries_def is_dict_def)
  ultimately show ?thesis using h1 r m by (simp add: two_entries_def)
qed

subsection \<open>Relevance scoring\<close>

lemma map_of_dict_set: "map_of (dict_set k v d) = (map_of d)(k \<mapsto> v)"
  by (induction d) (auto simp: fun_eq_iff)

lemma then_do_simps [simp]:
  "then_do (Inl e) f = Inl e" "then_do (Inr x) f = f x"
  by (simp_all add: then_do_def)

lemma add_matches_shift:
  "add_matches w query xs (score + a) = then_do (add_matches w query xs score) (\<lambda>r. Inr (r + a))"
proof (induction xs arbitrary: score)
  case Nil
  then show ?case by simp
next
  case (Cons x xs)
  show ?case
  proof (cases "py_in_str x query")
    case (Inl e)
    then show ?thesis by simp
  next
    case (Inr found)
    then show ?thesis
      using Cons.IH [of "score + w"] Cons.IH [of score] by (simp add: add.commute add.left_commute)
  qed
qed

lemma add_matches_insert:
  assumes "str_in c query"
  shows "add_matches w query (xs @ PStr c # ys) score
           = then_do (add_matches w query (xs @ ys) score) (\<lambda>r. Inr (r + w))"
proof (induction xs arbitrary: score)
  case Nil
  show ?case using assms add_matches_shift [of w query ys score w] by (simp add: py_in_str_def)
next
  case (Cons x xs)
  show ?case by (cases "py_in_str x query") (simp_all add: Cons.IH)
qed

lemma list_field_score_shift:
  "list_field_score field w query d (score + a)
     = then_do (list_field_score field w query d score) (\<lambda>r. Inr (r + a))"
  by (cases "map_of d field"; cases "py_iter (the (map_of d field))")
     (simp_all add: list_field_score_def add_matches_shift)

lemma category_score_shift:
  "category_score query d (score + a) = then_do (category_score query d score) (\<lambda>r. Inr (r + a))"
  by (cases "map_of d ''category''"; cases "py_in_str (the (map_of d ''category'')) query")
     (simp_all add: category_score_def)

lemma solution_score_shift:
  "solution_score query d (score + a) = then_do (solution_score query d score) (\<lambda>r. Inr (r + a))"
  by (cases "map_of d ''solution''"; cases "py_lower_split (the (map_of d ''solution''))")
     (simp_all add: solution_score_def)

lemma field_scores_shift:
  "field_scores query d (score + a) = then_do (field_scores query d score) (\<lambda>r. Inr (r + a))"
proof (cases "category_score query d score")
  case (Inl e)
  then show ?thesis by (simp add: field_scores_def category_score_shift)
next
  case s2: (Inr s2)
  show ?thesis
  proof (cases "list_field_score ''symptoms'' 2 query d s2")
    case (Inl e)
    then show ?thesis using s2 by (simp add: field_scores_def category_score_shift list_field_score_shift)
  next
    case (Inr s3)
    then show ?thesis using s2
      by (simp add: field_scores_def category_score_shift list_field_score_shift solution_score_shift)
  qed
qed

lemma field_scores_cong:
  assumes "map_of d' ''category'' = map_of d ''category''"
    "map_of d' ''symptoms'' = map_of d ''symptoms''" "map_of d' ''solution'' = map_of d ''solution''"
  shows "field_scores query d' = field_scores query d"
proof -
  have "category_score query d' = category_score query d"
    using assms(1) by (simp add: category_score_def fun_eq_iff)
  moreover have "list_field_score ''symptoms'' 2 query d' = list_field_score ''symptoms'' 2 query d"
    using assms(2) by (simp add: list_field_score_def fun_eq_iff)
  moreover have "solution_score query d' = solution_score query d"
    using assms(3) by (simp add: solution_score_def fun_eq_iff)
  ultimately show ?thesis by (simp add: field_scores_def [abs_def])
qed

lemma calculate_relevance_dict:
  "calculate_relevance query key (PDict d)
     = then_do (list_field_score ''crops'' 4 query d (key_score query key)) (field_scores query d)"
  by (simp add: calculate_relevance_def field_scores_def [abs_def])

lemma crops_score_crop_list:
  "crop_list d = Some crops \<Longrightarrow>
   list_field_score ''crops'' 4 query d score = add_matches 4 query crops score"
  by (auto simp: crop_list_def list_field_score_def py_iter_def split: option.splits pyval.splits)

text \<open>
  Claim C7: take an entry that scores without an exception against a query variant
  and put into its crop list, at any place, a crop name that is part of the
  variant: the entry then scores exactly 4 more, which is strictly more.
\<close>

theorem C7_crop_monotone:
  assumes "crop_list d = Some (xs @ ys)" and "str_in crop query"
    and "calculate_relevance query key (PDict d) = Inr score"
  shows "calculate_relevance query key (PDict (dict_set ''crops'' (PList (xs @ PStr crop # ys)) d))
           = Inr (score + 4) \<and> score < score + 4"
proof -
  let ?d = "dict_set ''crops'' (PList (xs @ PStr crop # ys)) d"
  have fs: "field_scores query ?d = field_scores query d"
    by (rule field_scores_cong) (simp_all add: map_of_dict_set)
  have "crop_list ?d = Some (xs @ PStr crop # ys)"
    by (simp add: crop_list_def map_of_dict_set)
  then have new: "list_field_score ''crops'' 4 query ?d (key_score query key)
      = then_do (add_matches 4 query (xs @ ys) (key_score query key)) (\<lambda>r. Inr (r + 4))"
    by (simp add: crops_score_crop_list add_matches_insert [OF assms(2)])
  obtain s1 where s1: "add_matches 4 query (xs @ ys) (key_score query key) = Inr s1"
    and rest: "field_scores query d s1 = Inr score"
    using assms(3) crops_score_crop_list [OF assms(1), of query "key_score query key"]
    by (cases "add_matches 4 query (xs @ ys) (key_score query key)")
       (simp_all add: calculate_relevance_dict)
  have "calculate_relevance query key (PDict ?d) = field_scores query d (s1 + 4)"
    by (simp add: calculate_relevance_dict new s1 fs)
  also have "\<dots> = Inr (score + 4)"
    by (simp add: field_scores_shift rest)
  finally show ?thesis by simp
qed

theorem C7_crop_monotone_witness:
  "crop_list mustard_entry = Some ([PStr ''wheat''] @ [])
   \<and> str_in ''mustard'' ''aphids in mustard''
   \<and> calculate_relevance ''aphids in mustard'' ''aphids'' (PDict mustard_entry) = Inr (381 / 23)
   \<and> calculate_relevance ''aphids in mustard'' ''aphids''
        (PDict [(''crops'', PList [PStr ''wheat'', PStr ''mustard'']), (''category'', PStr ''pest'')])
       = Inr (381 / 23 + 4)"
proof -
  have a: "crop_list mustard_entry = Some ([PStr ''wheat''] @ [])"
    by (simp add: crop_list_def mustard_entry_def)
  have b: "str_in ''mustard'' ''aphids in mustard''"
    by code_simp
  have c: "calculate_relevance ''aphids in mustard'' ''aphids'' (PDict mustard_entry) = Inr (381 / 23)"
    by code_simp
  have d: "dict_set ''crops'' (PList ([PStr ''wheat''] @ PStr ''mustard'' # [])) mustard_entry
           = [(''crops'', PList [PStr ''wheat'', PStr ''mustard'']), (''category'', PStr ''pest'')]"
    by (simp add: mustard_entry_def)
  show ?thesis
    using C7_crop_monotone [OF a b c] a b c unfolding d by simp
qed

subsection \<open>Knowledge Matcher\<close>

lemma find_append_Some: "find P xs = Some x \<Longrightarrow> find P (xs @ ys) = Some x"
  by (induction xs) (auto split: if_splits)

lemma find_append_last: "\<forall>x \<in> set xs. \<not> P x \<Longrightarrow> P y \<Longrightarrow> find P (xs @ [y]) = Some y"
  by (induction xs) auto

lemma recorded_append: "recorded kb prior r \<Longrightarrow> recorded kb (prior @ qs) r"
  by (simp add: recorded_def find_append_Some)

lemma well_recorded_append: "well_recorded kb prior rs seen \<Longrightarrow> well_recorded kb (prior @ qs) rs seen"
  by (simp add: well_recorded_def recorded_append)

lemma unseen_not_positive_mono:
  "unseen_not_positive es seen qs \<Longrightarrow> seen \<subseteq> seen' \<Longrightarrow> unseen_not_positive es seen' qs"
  by (fastforce simp: unseen_not_positive_def)

lemma scan_entries_inv:
  assumes "scan_entries q es (rs, seen) = Inr (rs', seen')"
    and "kb = pre @ es"
    and "well_recorded kb (prior @ [q]) rs seen"
    and "unseen_not_positive kb seen prior"
    and "unseen_not_positive pre seen [q]"
  shows "well_recorded kb (prior @ [q]) rs' seen' \<and> unseen_not_positive kb seen' (prior @ [q])"
  using assms
proof (induction es arbitrary: pre rs seen)
  case Nil
  then show ?case by (auto simp: unseen_not_positive_def)
next
  case (Cons e es)
  obtain k d where e: "e = (k, d)" by (cases e)
  have kb: "kb = (pre @ [(k, d)]) @ es" using Cons.prems(2) e by simp
  show ?case
  proof (cases "k \<in> seen")
    case True
    have step: "scan_entries q es (rs, seen) = Inr (rs', seen')"
      using Cons.prems(1) e True by simp
    have "unseen_not_positive (pre @ [(k, d)]) seen [q]"
      using Cons.prems(5) True by (simp add: unseen_not_positive_def)
    from Cons.IH [OF step kb Cons.prems(3) Cons.prems(4) this] show ?thesis .
  next
    case unseen: False
    show ?thesis
    proof (cases "calculate_relevance q k d")
      case (Inl err)
      with Cons.prems(1) e unseen show ?thesis by simp
    next
      case (Inr score)
      show ?thesis
      proof (cases "0 < score")
        case False
        have step: "scan_entries q es (rs, seen) = Inr (rs', seen')"
          using Cons.prems(1) e unseen Inr False by simp
        have "\<not> positive_at k d q" using Inr False by (simp add: positive_at_def)
        then have "unseen_not_positive (pre @ [(k, d)]) seen [q]"
          using Cons.prems(5) by (simp add: unseen_not_positive_def)
        from Cons.IH [OF step kb Cons.prems(3) Cons.prems(4) this] show ?thesis .
      next
        case True
        let ?r = "\<lparr>r_key = k, r_data = d, r_score = score, r_matched_query = q\<rparr>"
        have step: "scan_entries q es (rs @ [?r], insert k seen) = Inr (rs', seen')"
          using Cons.prems(1) e unseen Inr True by simp
        have pos: "positive_at k d q" using Inr True by (simp add: positive_at_def)
        have "\<forall>q' \<in> set prior. \<not> positive_at k d q'"
          using Cons.prems(4) unseen kb by (auto simp: unseen_not_positive_def)
        then have "find (positive_at k d) (prior @ [q]) = Some q"
          using pos by (rule find_append_last)
        then have rec: "recorded kb (prior @ [q]) ?r"
          using kb Inr by (simp add: recorded_def)
        have seen: "seen = r_key ` set rs" using Cons.prems(3) by (simp add: well_recorded_def)
        have wr: "well_recorded kb (prior @ [q]) (rs @ [?r]) (insert k seen)"
          using Cons.prems(3) rec unseen seen by (auto simp: well_recorded_def)
        have u1: "unseen_not_positive kb (insert k seen) prior"
          by (rule unseen_not_positive_mono [OF Cons.prems(4)]) auto
        have "unseen_not_positive pre (insert k seen) [q]"
          by (rule unseen_not_positive_mono [OF Cons.prems(5)]) auto
        then have u2: "unseen_not_positive (pre @ [(k, d)]) (insert k seen) [q]"
          by (simp add: unseen_not_positive_def)
        from Cons.IH [OF step kb wr u1 u2] show ?thesis .
      qed
    qed
  qed
qed

lemma scan_queries_inv:
  assumes "scan_queries qs kb (rs, seen) = Inr (rs', seen')"
    and "well_recorded kb prior rs seen" and "unseen_not_positive kb seen prior"
  shows "well_recorded kb (prior @ qs) rs' seen' \<and> unseen_not_positive kb seen' (prior @ qs)"
  using assms
proof (induction qs arbitrary: prior rs seen)
  case Nil
  then show ?case by simp
next
  case (Cons q qs)
  from Cons.prems(1) obtain rs1 seen1 where
    one: "scan_entries q kb (rs, seen) = Inr (rs1, seen1)"
    and rest: "scan_queries qs kb (rs1, seen1) = Inr (rs', seen')"
    by (cases "scan_entries q kb (rs, seen)") auto
  have "well_recorded kb (prior @ [q]) rs1 seen1 \<and> unseen_not_positive kb seen1 (prior @ [q])"
  proof (rule scan_entries_inv [where pre = "[]", OF one _ well_recorded_append [OF Cons.prems(2)]
        Cons.prems(3)])
    show "kb = [] @ kb" by simp
    show "unseen_not_positive [] seen [q]" by (simp add: unseen_not_positive_def)
  qed
  then have "well_recorded kb ((prior @ [q]) @ qs) rs' seen'
      \<and> unseen_not_positive kb seen' ((prior @ [q]) @ qs)"
    using Cons.IH [OF rest] by blast
  then show ?case by simp
qed

lemma same_key_same_data:
  "distinct (map fst kb) \<Longrightarrow> (k, d) \<in> set kb \<Longrightarrow> (k, d') \<in> set kb \<Longrightarrow> d = d'"
  by (rule eq_key_imp_eq_value)

text \<open>
  Claim C5: when the matcher returns, no entry key occurs twice among its results;
  every result holds an entry of the mapping together with the first variant, in
  the order of the variants, against which that entry scores above zero, and the
  score computed against that variant; and no match is lost: the key of every entry
  that scores above zero against some variant is among the results. With the keys of
  the mapping distinct, as in a dictionary, each such entry therefore has its own
  result, with its first positive variant and the score against it.
\<close>

theorem C5_first_variant_wins:
  assumes "search_knowledge_base queries kb = Inr results"
  shows "distinct (map r_key results)
         \<and> (\<forall>r \<in> set results. recorded kb queries r)
         \<and> (\<forall>(k, d) \<in> set kb.
               (\<exists>q \<in> set queries. positive_at k d q) \<longrightarrow> k \<in> r_key ` set results)
         \<and> (distinct (map fst kb) \<longrightarrow>
               (\<forall>(k, d) \<in> set kb.
                  (\<exists>q \<in> set queries. positive_at k d q) \<longrightarrow>
                  (\<exists>r \<in> set results.
                     r_key r = k \<and> r_data r = d
                     \<and> find (positive_at k d) queries = Some (r_matched_query r)
                     \<and> calculate_relevance (r_matched_query r) k d = Inr (r_score r))))"
proof -
  from assms obtain seen where "scan_queries queries kb ([], {}) = Inr (results, seen)"
    by (cases "scan_queries queries kb ([], {})") (auto simp: search_knowledge_base_def)
  then have inv: "well_recorded kb ([] @ queries) results seen
      \<and> unseen_not_positive kb seen ([] @ queries)"
    by (rule scan_queries_inv) (simp_all add: well_recorded_def unseen_not_positive_def)
  have seen: "seen = r_key ` set results" and dist: "distinct (map r_key results)"
    and rec: "\<forall>r \<in> set results. recorded kb queries r"
    using inv by (simp_all add: well_recorded_def)
  have unseen: "unseen_not_positive kb seen queries"
    using inv by simp
  have found: "k \<in> r_key ` set results"
    if "(k, d) \<in> set kb" and "\<exists>q \<in> set queries. positive_at k d q" for k d
    using that unseen unfolding seen unseen_not_positive_def by blast
  have own: "\<exists>r \<in> set results.
                r_key r = k \<and> r_data r = d
                \<and> find (positive_at k d) queries = Some (r_matched_query r)
                \<and> calculate_relevance (r_matched_query r) k d = Inr (r_score r)"
    if keys: "distinct (map fst kb)" and mem: "(k, d) \<in> set kb"
      and pos: "\<exists>q \<in> set queries. positive_at k d q" for k d
  proof -
    from found [OF mem pos] obtain r where r: "r \<in> set results" and k: "r_key r = k"
      by auto
    from rec r have rr: "recorded kb queries r" by blast
    then have "(k, r_data r) \<in> set kb" using k by (simp add: recorded_def)
    with keys mem have d: "r_data r = d" by (metis same_key_same_data)
    show ?thesis using r k d rr by (auto simp: recorded_def)
  qed
  show ?thesis using dist rec found own by blast
qed

theorem C5_first_variant_wins_witness:
  "search_knowledge_base [''xyz'', ''aphid'', ''aphids''] three_entries
     = Inr [xyz_result, aphid_result]
   \<and> map fst three_entries = [''aphids'', ''mmm'', ''xyz'']
   \<and> map r_key [xyz_result, aphid_result] = [''xyz'', ''aphids'']
   \<and> calculate_relevance ''xyz'' ''aphids'' (PDict []) = Inr 0
   \<and> calculate_relevance ''aphid'' ''aphids'' (PDict []) = Inr (30 / 11)
   \<and> calculate_relevance ''aphids'' ''aphids'' (PDict []) = Inr 18
   \<and> recorded three_entries [''xyz'', ''aphid'', ''aphids''] xyz_result
   \<and> recorded three_entries [''xyz'', ''aphid'', ''aphids''] aphid_result
   \<and> ''aphids'' \<in> r_key ` set [xyz_result, aphid_result]"
proof -
  have a: "search_knowledge_base [''xyz'', ''aphid'', ''aphids''] three_entries
             = Inr [xyz_result, aphid_result]"
    by code_simp
  have b: "calculate_relevance ''xyz'' ''aphids'' (PDict []) = Inr 0"
    by code_simp
  have c: "calculate_relevance ''aphid'' ''aphids'' (PDict []) = Inr (30 / 11)"
    by code_simp
  have d: "calculate_relevance ''aphids'' ''aphids'' (PDict []) = Inr 18"
    by code_simp
  have pos: "\<exists>q \<in> set [''xyz'', ''aphid'', ''aphids'']. positive_at ''aphids'' (PDict []) q"
    using d by (simp add: positive_at_def)
  have mem: "(''aphids'', PDict []) \<in> set three_entries"
    by (simp add: three_entries_def)
  have "''aphids'' \<in> r_key ` set [xyz_result, aphid_result]"
    using C5_first_variant_wins [OF a] mem pos by blast
  moreover have "recorded three_entries [''xyz'', ''aphid'', ''aphids''] xyz_result
      \<and> recorded three_entries [''xyz'', ''aphid'', ''aphids''] aphid_result"
    using C5_first_variant_wins [OF a] by simp
  ultimately show ?thesis
    using a b c d by (simp add: three_entries_def xyz_result_def aphid_result_def)
qed

subsection \<open>The pipeline\<close>

lemma ranking_any_engine:
  "ranking (fst (search rt eng query kb None now1 now2))
     = ranking (fst (search rt eng' query kb None now3 now4))"
  by (simp add: search_def Let_def ranking_def then_do_def split: sum.splits)

text \<open>
  Claim C6: a second call of \<^verbatim>\<open>search\<close> with the same query, the same mapping and no
  context, made on the engine as the first call left it (its history and counter
  changed) and at any later clock readings, returns the same ranked results: the same
  entries with the same scores in the same order, and the same total.
\<close>

theorem C6_search_twice_same_ranking:
  "ranking (fst (search rt (snd (search rt eng query kb None now1 now2)) query kb None now3 now4))
     = ranking (fst (search rt eng query kb None now1 now2))"
  by (rule ranking_any_engine)

subsection \<open>Failures while scoring\<close>

lemma scan_entries_raises:
  assumes "(key, data) \<in> set es" and "calculate_relevance query key data = Inl e"
    and "distinct (map fst es)" and "seen \<inter> fst ` set es = {}"
  shows "\<exists>e'. scan_entries query es (rs, seen) = Inl e'"
  using assms
proof (induction es arbitrary: rs seen)
  case Nil
  then show ?case by simp
next
  case (Cons x es)
  obtain k d where x: "x = (k, d)" by (cases x)
  have unseen: "k \<notin> seen" using Cons.prems(4) x by auto
  show ?case
  proof (cases "calculate_relevance query k d")
    case (Inl err)
    then show ?thesis using x unseen by simp
  next
    case (Inr score)
    then have "(key, data) \<noteq> (k, d)" using Cons.prems(2) by auto
    then have mem: "(key, data) \<in> set es" using Cons.prems(1) x by auto
    have dist: "distinct (map fst es)" and fresh: "k \<notin> fst ` set es"
      using Cons.prems(3) x by simp_all
    have "insert k seen \<inter> fst ` set es = {}" and "seen \<inter> fst ` set es = {}"
      using Cons.prems(4) fresh by auto
    then show ?thesis
      using Cons.IH [OF mem Cons.prems(2) dist] x unseen Inr by simp
  qed
qed

lemma search_knowledge_base_raises:
  assumes "(key, data) \<in> set kb" and "calculate_relevance query key data = Inl e"
    and "distinct (map fst kb)"
  shows "\<exists>e'. search_knowledge_base (query # queries) kb = Inl e'"
proof -
  obtain e' where "scan_entries query kb ([], {}) = Inl e'"
    using scan_entries_raises [OF assms, of "{}" "[]"] by auto
  then show ?thesis by (simp add: search_knowledge_base_def)
qed

text \<open>
  Claim C1 says that an exception raised while one entry is scored is set aside and
  the other entries still give results. The engine has no exception handler: in a
  mapping with distinct keys, an entry whose scoring against the normalized query
  raises makes \<^verbatim>\<open>_search_knowledge_base\<close> and \<^verbatim>\<open>search\<close> end with an exception, no result
  is returned and no history entry is written.
\<close>

theorem C1_failure_propagates:
  assumes "distinct (map fst kb)" and "(key, data) \<in> set kb"
    and "calculate_relevance (preprocess_query query) key data = Inl e"
  shows "(\<exists>e'. search_knowledge_base (expand_query (preprocess_query query)) kb = Inl e')
         \<and> (\<exists>e'. fst (search rt eng query kb ctx now1 now2) = Inl e')
         \<and> search_history (snd (search rt eng query kb ctx now1 now2)) = search_history eng"
proof -
  obtain e' where "search_knowledge_base (expand_query (preprocess_query query)) kb = Inl e'"
    using search_knowledge_base_raises [OF assms(2) assms(3) assms(1)]
    by (auto simp: expand_query_def)
  then show ?thesis by (simp add: search_def Let_def)
qed

theorem C1_failure_propagates_witness:
  "distinct (map fst bad_crops_kb)
   \<and> (''bad'', PDict [(''crops'', PList [PInt 5])]) \<in> set bad_crops_kb
   \<and> calculate_relevance (preprocess_query ''aphids'') ''bad''
        (PDict [(''crops'', PList [PInt 5])]) = Inl TypeError
   \<and> (\<exists>e'. fst (search plain_runtime new_engine ''aphids'' bad_crops_kb None ''t1'' ''t2'') = Inl e')
   \<and> search_history (snd (search plain_runtime new_engine ''aphids'' bad_crops_kb None ''t1'' ''t2''))
       = []"
proof -
  have a: "distinct (map fst bad_crops_kb)"
    by (simp add: bad_crops_kb_def)
  have b: "(''bad'', PDict [(''crops'', PList [PInt 5])]) \<in> set bad_crops_kb"
    by (simp add: bad_crops_kb_def)
  have c: "calculate_relevance (preprocess_query ''aphids'') ''bad''
        (PDict [(''crops'', PList [PInt 5])]) = Inl TypeError"
    by code_simp
  show ?thesis
    using C1_failure_propagates [OF a b c, of plain_runtime new_engine None "''t1''" "''t2''"] a b c
    by (simp add: new_engine_def)
qed

text \<open>
  The counterexample to C1 as stated: the entry "aphids" alone is found with score
  18, and next to an entry whose crop list holds the number 5, or whose solution is
  the number 5, the matcher and the whole search end with the exception instead.
\<close>

theorem C1_counterexample:
  "calculate_relevance ''aphids'' ''aphids'' (PDict []) = Inr 18
   \<and> search_knowledge_base [''aphids''] [(''aphids'', PDict [])]
       = Inr [\<lparr>r_key = ''aphids'', r_data = PDict [], r_score = 18, r_matched_query = ''aphids''\<rparr>]
   \<and> calculate_relevance ''aphids'' ''bad'' (PDict [(''crops'', PList [PInt 5])]) = Inl TypeError
   \<and> search_knowledge_base [''aphids''] bad_crops_kb = Inl TypeError
   \<and> calculate_relevance ''aphids'' ''bad'' (PDict [(''solution'', PInt 5)]) = Inl AttributeError
   \<and> search_knowledge_base [''aphids''] bad_solution_kb = Inl AttributeError
   \<and> fst (search plain_runtime new_engine ''aphids'' bad_crops_kb None ''t1'' ''t2'') = Inl TypeError
   \<and> fst (search plain_runtime new_engine ''aphids'' bad_solution_kb None ''t1'' ''t2'')
       = Inl AttributeError"
  by code_simp

subsection \<open>Searches without results\<close>

lemma split_ws_words: "w \<in> set (split_ws s) \<Longrightarrow> w \<noteq> [] \<and> set w \<subseteq> set s"
proof (induction s rule: split_ws.induct)
  case (1 s)
  let ?t = "dropWhile is_space s"
  let ?P = "\<lambda>c. \<not> is_space c"
  have empty: "?t = [] \<Longrightarrow> split_ws s = []"
    by (subst split_ws.simps) simp
  have ne: "?t \<noteq> []"
  proof
    assume "?t = []"
    then have "split_ws s = []" by (rule empty)
    with "1.prems" show False by simp
  qed
  have unfold: "split_ws s = takeWhile ?P ?t # split_ws (dropWhile ?P ?t)"
    using ne by (subst split_ws.simps) (simp add: Let_def)
  have ts: "set ?t \<subseteq> set s" by (auto dest: set_dropWhileD)
  from "1.prems" consider "w = takeWhile ?P ?t" | "w \<in> set (split_ws (dropWhile ?P ?t))"
    unfolding unfold by auto
  then show ?case
  proof cases
    case 1
    have "\<not> is_space (hd ?t)" using ne hd_dropWhile by metis
    then have "takeWhile ?P ?t \<noteq> []" using ne by (cases ?t) simp_all
    moreover have "set (takeWhile ?P ?t) \<subseteq> set ?t" by (auto dest: set_takeWhileD)
    ultimately show ?thesis using 1 ts by auto
  next
    case 2
    then have "w \<noteq> [] \<and> set w \<subseteq> set (dropWhile ?P ?t)"
      using "1.IH" [OF refl ne] by simp
    moreover have "set (dropWhile ?P ?t) \<subseteq> set ?t" by (auto dest: set_dropWhileD)
    ultimately show ?thesis using ts by auto
  qed
qed

lemma split_ws_Nil: "split_ws [] = []"
  by (subst split_ws.simps) simp

lemma str_in_subset: "str_in x s \<Longrightarrow> set x \<subseteq> set s"
  unfolding str_in_def by (rule set_mono_sublist)

lemma str_in_disjoint: "x \<noteq> [] \<Longrightarrow> set x \<inter> set s = {} \<Longrightarrow> \<not> str_in x s"
  using str_in_subset [of x s] by (cases x) auto

lemma scan_js_Nil: "scan_js i blo bhi j2len [] st = st"
  by simp

lemma scan_is_no_common:
  "\<forall>i \<in> set is. b2j b (a ! i) = [] \<Longrightarrow> scan_is a b blo bhi is (best, j2len) = best"
  by (induction "is" arbitrary: j2len) simp_all

lemma b2j_absent: "c \<notin> set b \<Longrightarrow> b2j b c = []"
  by (auto simp: b2j_def filter_empty_conv)

lemma find_longest_match_disjoint:
  assumes "set a \<inter> set b = {}"
  shows "find_longest_match a b 0 (length a) 0 (length b) = (0, 0, 0)"
proof -
  have "\<forall>i \<in> set [0..<length a]. b2j b (a ! i) = []"
  proof
    fix i assume "i \<in> set [0..<length a]"
    then have "a ! i \<in> set a" by simp
    with assms have "a ! i \<notin> set b" by auto
    then show "b2j b (a ! i) = []" by (rule b2j_absent)
  qed
  then have "scan_is a b 0 (length b) [0..<length a] ((0, 0, 0), Map.empty) = (0, 0, 0)"
    by (rule scan_is_no_common)
  moreover have "extend_left a b 0 0 (0, 0, 0) = (0, 0, 0)"
    by (subst extend_left.simps) simp
  moreover have "extend_right a b (length a) (length b) (0, 0, 0) = (0, 0, 0)"
  proof -
    have "\<not> (0 < length a \<and> 0 < length b \<and> a ! 0 = b ! 0)"
      using assms by (cases a; cases b) auto
    then show ?thesis by (subst extend_right.simps) auto
  qed
  ultimately show ?thesis by (simp add: find_longest_match_def)
qed

lemma ratio_disjoint:
  assumes "set a \<inter> set b = {}" and "a \<noteq> [] \<or> b \<noteq> []"
  shows "ratio a b = 0"
  using assms(2)
  by (simp add: ratio_def Let_def matching_size.simps [of a b 0 "length a" 0 "length b"]
      find_longest_match_disjoint [OF assms(1)])

lemma key_score_unrelated:
  assumes "key \<noteq> []" and "set key \<inter> set q = {}"
  shows "key_score q key = 0"
proof -
  have "\<not> str_in key q" using assms by (rule str_in_disjoint)
  moreover have "\<not> (\<exists>word \<in> set (split_ws key). str_in word q)"
  proof
    assume "\<exists>word \<in> set (split_ws key). str_in word q"
    then obtain w where w: "w \<in> set (split_ws key)" and i: "str_in w q" by blast
    from split_ws_words [OF w] assms(2) have "w \<noteq> []" "set w \<inter> set q = {}" by auto
    then show False using i str_in_disjoint by blast
  qed
  moreover have "ratio q key = 0"
    using assms by (intro ratio_disjoint) auto
  ultimately show ?thesis by (simp add: key_score_def)
qed

lemma add_matches_none:
  "list_all (\<lambda>x. case x of PStr s \<Rightarrow> \<not> str_in s q | _ \<Rightarrow> False) xs \<Longrightarrow>
   add_matches w q xs score = Inr score"
  by (induction xs) (auto simp: py_in_str_def split: pyval.splits)

lemma list_field_score_none:
  "field_ok (all_strings (\<lambda>s. \<not> str_in s q)) d field \<Longrightarrow>
   list_field_score field w q d score = Inr score"
  by (auto simp: field_ok_def all_strings_def list_field_score_def py_iter_def add_matches_none
      split: option.splits pyval.splits)

lemma category_score_none:
  "field_ok (a_string (\<lambda>s. \<not> str_in s q)) d ''category'' \<Longrightarrow> category_score q d score = Inr score"
  by (auto simp: field_ok_def a_string_def category_score_def py_in_str_def
      split: option.splits pyval.splits)

lemma solution_score_none:
  "field_ok (a_string (\<lambda>s. set (split_ws (lower s)) \<inter> set (split_ws q) = {})) d ''solution'' \<Longrightarrow>
   solution_score q d score = Inr score"
  by (auto simp: field_ok_def a_string_def solution_score_def py_lower_split_def
      split: option.splits pyval.splits)

lemma calculate_relevance_unrelated:
  assumes "unrelated q (key, data)"
  shows "calculate_relevance q key data = Inr 0"
proof -
  have k: "key_score q key = 0"
    using assms by (intro key_score_unrelated) (simp_all add: unrelated_def)
  show ?thesis
  proof (cases data)
    case (PDict d)
    then show ?thesis
      using assms k
      by (simp add: unrelated_def calculate_relevance_def list_field_score_none
          category_score_none solution_score_none)
  qed (simp_all add: calculate_relevance_def k)
qed

lemma plain_entry_unrelated: "plain_entry e \<Longrightarrow> unrelated [] e"
proof -
  have a: "all_strings (\<lambda>s. s \<noteq> []) = all_strings (\<lambda>s. \<not> str_in s [])"
    by (simp add: str_in_def)
  have b: "a_string (\<lambda>s. s \<noteq> []) = a_string (\<lambda>s. \<not> str_in s [])"
    by (simp add: str_in_def)
  assume "plain_entry e"
  then show ?thesis
    by (auto simp: plain_entry_def unrelated_def a b split_ws_Nil split: pyval.splits)
qed

lemma scan_entries_unrelated:
  "\<forall>e \<in> set kb. unrelated q e \<Longrightarrow> scan_entries q kb (rs, seen) = Inr (rs, seen)"
  by (induction kb) (auto simp: calculate_relevance_unrelated)

lemma search_knowledge_base_unrelated:
  "\<forall>e \<in> set kb. unrelated q e \<Longrightarrow> search_knowledge_base [q] kb = Inr []"
  by (simp add: search_knowledge_base_def scan_entries_unrelated)

lemma rank_results_Nil: "rank_results [] q it = Inr []"
  by (simp add: rank_results_def sort_desc_def)

lemma set_listing_Nil: "set_listing rt \<Longrightarrow> list_of_set rt [] = []"
  unfolding set_listing_def by (metis set_empty)

lemma generate_suggestions_Nil: "set_listing rt \<Longrightarrow> generate_suggestions rt q [] = Inr []"
  by (simp add: generate_suggestions_def set_listing_Nil)

lemma search_unrelated:
  assumes "expand_query (preprocess_query query) = [preprocess_query query]"
    and "\<forall>e \<in> set kb. unrelated (preprocess_query query) e" and "set_listing rt"
  shows "no_results (fst (search rt eng query kb ctx now1 now2))"
  using assms
  by (simp add: search_def Let_def search_knowledge_base_unrelated rank_results_Nil
      apply_context_def generate_suggestions_Nil no_results_def split: option.splits)

lemma is_space_lower_char: "is_space c \<Longrightarrow> lower_char c = c"
  by (auto simp: is_space_def lower_char_def is_upper_def)

lemma preprocess_query_blank: "\<forall>c \<in> set query. is_space c \<Longrightarrow> preprocess_query query = []"
proof -
  assume a: "\<forall>c \<in> set query. is_space c"
  then have l: "lower query = query"
    by (simp add: lower_def is_space_lower_char map_idI)
  have d: "dropWhile is_space query = []" using a by simp
  show ?thesis
    unfolding preprocess_query_def strip_def remove_special_def l d by simp
qed

lemma expand_query_Nil: "expand_query [] = [[]]"
  by (simp add: expand_query_def split_ws_Nil)

text \<open>
  Claim C10: for a query that is empty or made of whitespace only, and a mapping
  whose entries have non-empty keys, crop names, category labels and symptom strings
  (and a solution, where present, that is a string), \<^verbatim>\<open>search\<close> returns no results,
  the total 0 and no suggestions, with or without a context.
\<close>

theorem C10_blank_query_no_results:
  assumes "\<forall>c \<in> set query. is_space c" and "\<forall>e \<in> set kb. plain_entry e" and "set_listing rt"
  shows "no_results (fst (search rt eng query kb ctx now1 now2))"
proof (rule search_unrelated)
  show "expand_query (preprocess_query query) = [preprocess_query query]"
    using assms(1) by (simp add: preprocess_query_blank expand_query_Nil)
  show "\<forall>e \<in> set kb. unrelated (preprocess_query query) e"
    using assms(1,2) by (simp add: preprocess_query_blank plain_entry_unrelated)
  show "set_listing rt" by (rule assms(3))
qed

theorem C10_blank_query_no_results_witness:
  "map is_space [CHR '' '', CHR 0x09] = [True, True]
   \<and> map plain_entry aphids_kb = [True]
   \<and> set_listing plain_runtime
   \<and> no_results
        (fst (search plain_runtime new_engine [CHR '' '', CHR 0x09] aphids_kb None ''t1'' ''t2''))
   \<and> no_results (fst (search plain_runtime new_engine [] aphids_kb None ''t1'' ''t2''))"
proof -
  have a': "map is_space [CHR '' '', CHR 0x09] = [True, True]"
    by (simp add: is_space_def code_def)
  then have a: "\<forall>c \<in> set [CHR '' '', CHR 0x09]. is_space c"
    by simp
  have a0: "\<forall>c \<in> set []. is_space c" by simp
  have b': "map plain_entry aphids_kb = [True]"
    by (simp add: aphids_kb_def plain_entry_def field_ok_def all_strings_def a_string_def)
  then have b: "\<forall>e \<in> set aphids_kb. plain_entry e"
    by (simp add: aphids_kb_def)
  have c: "set_listing plain_runtime"
    by (simp add: set_listing_def plain_runtime_def)
  show ?thesis
    using C10_blank_query_no_results [OF a b c, of new_engine None "''t1''" "''t2''"]
      C10_blank_query_no_results [OF a0 b c, of new_engine None "''t1''" "''t2''"] a' b' c
    by blast
qed

subsection \<open>The query "xyzabc123"\<close>

lemma preprocess_query_xyzabc123: "preprocess_query ''xyzabc123'' = ''xyzabc123''"
  by code_simp

lemma expand_query_xyzabc123: "expand_query ''xyzabc123'' = [''xyzabc123'']"
  by code_simp

text \<open>
  Claim C2 says that the query "xyzabc123" finds nothing in any non-empty mapping.
  The similarity term can be positive when a key shares a character with the query,
  and every positive score is a result. What holds: in a mapping whose entries are
  all unrelated to "xyzabc123" (keys not empty and without a character of it; crops,
  category and symptoms that are not parts of it; solutions without it as a word),
  the search returns no results, the total 0 and no suggestions.
\<close>

theorem C2_unrelated_entries_no_results:
  assumes "\<forall>e \<in> set kb. unrelated ''xyzabc123'' e" and "set_listing rt"
  shows "no_results (fst (search rt eng ''xyzabc123'' kb ctx now1 now2))"
  using assms
  by (intro search_unrelated) (simp_all add: preprocess_query_xyzabc123 expand_query_xyzabc123)

theorem C2_unrelated_entries_no_results_witness:
  "map (unrelated ''xyzabc123'') mildew_kb = [True]
   \<and> set_listing plain_runtime
   \<and> no_results (fst (search plain_runtime new_engine ''xyzabc123'' mildew_kb None ''t1'' ''t2''))"
proof -
  have a': "map (unrelated ''xyzabc123'') mildew_kb = [True]"
    by code_simp
  then have a: "\<forall>e \<in> set mildew_kb. unrelated ''xyzabc123'' e"
    by (simp add: mildew_kb_def)
  have b: "set_listing plain_runtime"
    by (simp add: set_listing_def plain_runtime_def)
  show ?thesis
    using C2_unrelated_entries_no_results [OF a b, of new_engine None "''t1''" "''t2''"] a' b
    by blast
qed

text \<open>
  The counterexample to C2 as stated: in the mapping with the one entry "aphids",
  whose key shares the letter a with the query, the similarity ratio is 2/15, the
  score is 2/5, and the search returns that entry and two suggestions.
\<close>

theorem C2_counterexample:
  "fst (search plain_runtime new_engine ''xyzabc123'' aphids_kb None ''t1'' ''t2'')
     = Inr \<lparr>o_query = ''xyzabc123'', o_processed_query = ''xyzabc123'',
            o_intent = \<lparr>intent_type = ''general'', intent_action = None,
                         intent_subject = None, intent_confidence = 0\<rparr>,
            o_results =
              [\<lparr>r_key = ''aphids'',
                r_data = PDict [(''crops'', PList [PStr ''mustard'', PStr ''wheat'']),
                                (''category'', PStr ''pest''),
                                (''symptoms'', PList [PStr ''curled leaves''])],
                r_score = 2 / 5, r_matched_query = ''xyzabc123''\<rparr>],
            o_total_results = 1, o_search_time = ''t2'',
            o_suggestions = [''How to manage aphids in mustard?'',
                             ''How to manage aphids in wheat?'']\<rparr>
   \<and> aphids_kb \<noteq> []
   \<and> ratio ''xyzabc123'' ''aphids'' = 2 / 15"
  by code_simp

subsection \<open>The query "How to control aphids in mustard?"\<close>

text \<open>The stages of the pipeline on the example, each evaluated on its own.\<close>

lemma preprocess_aphids_query:
  "preprocess_query aphids_query = ''how to control aphids in mustard?''"
  by code_simp

lemma intent_aphids_query:
  "extract_intent ''how to control aphids in mustard?'' = aphids_intent"
  by code_simp

lemma expand_aphids_query:
  "expand_query ''how to control aphids in mustard?''
     = [''how to control aphids in mustard?'', ''how to manage aphids in mustard?'',
        ''how to eliminate aphids in mustard?'', ''how to remove aphids in mustard?'',
        ''how to treat aphids in mustard?'']"
  by code_simp

lemma relevance_aphids_query:
  "calculate_relevance ''how to control aphids in mustard?'' ''aphids''
     (PDict [(''crops'', PList [PStr ''mustard'', PStr ''wheat'']),
             (''category'', PStr ''pest''),
             (''symptoms'', PList [PStr ''curled leaves''])]) = Inr (259 / 13)"
  by code_simp

lemma matcher_aphids_query:
  "search_knowledge_base (expand_query ''how to control aphids in mustard?'') aphids_kb
     = Inr [aphids_result]"
  by (simp add: expand_aphids_query search_knowledge_base_def aphids_kb_def
      relevance_aphids_query aphids_result_def)

lemma rank_aphids_query:
  "rank_results [aphids_result] ''how to control aphids in mustard?'' aphids_intent
     = Inr [aphids_result]"
  by (simp add: rank_results_def sort_desc_def aphids_intent_def)

lemma suggestions_aphids_query:
  "generate_suggestions rt query [aphids_result]
     = Inr (take 5 (list_of_set rt [''How to manage aphids in mustard?'',
                                     ''How to manage aphids in wheat?'']))"
  by (simp add: generate_suggestions_def entry_suggestions_def aphids_result_def first_two_def
      py_str_def)

lemma search_aphids_query:
  "fst (search rt eng aphids_query aphids_kb ctx now1 now2)
     = Inr \<lparr>o_query = aphids_query, o_processed_query = ''how to control aphids in mustard?'',
            o_intent = aphids_intent, o_results = [aphids_result], o_total_results = 1,
            o_search_time = now2,
            o_suggestions = take 5 (list_of_set rt [''How to manage aphids in mustard?'',
                                                     ''How to manage aphids in wheat?''])\<rparr>"
  by (simp add: search_def Let_def preprocess_aphids_query intent_aphids_query
      matcher_aphids_query rank_aphids_query suggestions_aphids_query apply_context_def
      split: option.splits)

text \<open>
  Claim C3 says that the query "How to control aphids in mustard?" finds "aphids" as
  the top result with a score above 14 and has the intent topic "pest_control". The
  engine is evaluated here on the mapping with that entry, for every engine state,
  context and run time. The score part holds: "aphids" is returned with the score
  259/13 = 10 + 5 + 3 * 12/39 + 4. The topic part does not: the intent topic comes
  out as "general". Both patterns of the group "pest_control" list the word "aphid"
  between word boundaries, and in the query the letter s follows it, so the plural
  is missed, although the patterns aim at queries of this kind.
\<close>

theorem C3_aphids_query_general_intent:
  "\<exists>out. fst (search rt eng aphids_query aphids_kb ctx now1 now2) = Inr out
         \<and> map r_key (o_results out) = [''aphids'']
         \<and> map r_score (o_results out) = [259 / 13]
         \<and> 14 < r_score (hd (o_results out))
         \<and> intent_type (o_intent out) = ''general''
         \<and> intent_type (o_intent out) \<noteq> ''pest_control''
         \<and> intent_confidence (o_intent out) = 0"
  by (simp add: search_aphids_query aphids_result_def aphids_intent_def)


end
